theory Spec2Isabelle
  imports Complex_Main "HOL-Library.AList"
begin

section \<open>The native tree and the wrapper heap\<close>

text \<open>
  libxml2 keeps the document tree in C structures that share a common header
  (\<open>_private\<close>, \<open>type\<close>, \<open>name\<close>, \<open>children\<close>, \<open>parent\<close>, \<open>next\<close>, \<open>doc\<close>);
  \<open>xmlNode\<close>, \<open>xmlAttr\<close> and \<open>xmlDoc\<close> are all read through that header by
  \<open>on_libxml_destruct\<close>. The model keeps one store from addresses to such headers.
  A sibling chain (\<open>children\<close>, then \<open>next\<close> until NULL) is the list of the children's
  addresses, and the property chain of an element likewise. The text held below an
  attribute or a text node is the string \<open>x_content\<close>.
\<close>

type_synonym addr = nat

datatype xmlElementType =
    XML_ELEMENT_NODE
  | XML_ATTRIBUTE_NODE
  | XML_TEXT_NODE
  | XML_CDATA_SECTION_NODE
  | XML_ENTITY_REF_NODE
  | XML_ENTITY_NODE
  | XML_PI_NODE
  | XML_COMMENT_NODE
  | XML_DOCUMENT_NODE
  | XML_DOCUMENT_TYPE_NODE
  | XML_DOCUMENT_FRAG_NODE
  | XML_NOTATION_NODE
  | XML_HTML_DOCUMENT_NODE
  | XML_DTD_NODE
  | XML_ELEMENT_DECL
  | XML_ATTRIBUTE_DECL
  | XML_ENTITY_DECL
  | XML_NAMESPACE_DECL
  | XML_XINCLUDE_START
  | XML_XINCLUDE_END

record xml_node =
  x_private :: "addr option"
  x_type :: xmlElementType
  x_name :: string
  x_children :: "addr list"
  x_parent :: "addr option"
  x_doc :: "addr option"
  x_properties :: "addr list"
  x_content :: string

subsection \<open>JavaScript values\<close>

text \<open>
  A JavaScript number is a double: a finite value, an infinity or NaN. The finite
  doubles are rationals, embedded in the reals.
\<close>

datatype js_number = NaN | Infinity | NegInfinity | Finite real

datatype js_value =
    JsNull
  | JsUndefined
  | JsBoolean bool
  | JsNumber js_number
  | JsString string
  | JsFunction nat
  | JsObject "(string \<times> js_value) list"
  | JsArray "js_value list"
  | JsWrapper addr

text \<open>
  The C++ side: a \<open>JsObj\<close> is the link object whose address sits in a node's
  \<open>_private\<close> slot and which holds the handle of the JavaScript object; the
  JavaScript object carries (in its internal field) the C++ object of class
  Document, Element, Attribute or Namespace with its \<open>xml_obj\<close> pointer. The
  properties set on the JavaScript object from C++ are \<open>w_fields\<close>.
\<close>

datatype klass = Document | Element | Attribute | Namespace

record wrapper =
  w_klass :: klass
  xml_obj :: addr
  w_fields :: "(string \<times> js_value) list"

record heap =
  nodes :: "addr \<rightharpoonup> xml_node"
  jsobjs :: "addr \<rightharpoonup> addr"
  wrappers :: "addr \<rightharpoonup> wrapper"
  heap_next :: addr

text \<open>
  What a call can do besides returning: throw a JavaScript exception
  (\<open>LIBXMLJS_THROW_EXCEPTION\<close>), or end the process (a failed \<open>assert\<close>, a NULL
  pointer dereferenced, a node used after the engine freed it, which is a node absent
  from the store). Every operation returns its outcome together with the heap it leaves.
\<close>

datatype 'a result = Ok 'a | Exception string | Crash

section \<open>libxmljs.cc: the destruction notification\<close>

text \<open>\<open>delete static_cast<JsObj*>(p)\<close>: deleting NULL does nothing.\<close>

definition delete_JsObj :: "heap \<Rightarrow> addr option \<Rightarrow> heap" where
  "delete_JsObj s p =
     (case p of None \<Rightarrow> s | Some j \<Rightarrow> s\<lparr>jsobjs := (jsobjs s)(j := None)\<rparr>)"

text \<open>\<open>p->_private = NULL\<close> for a live \<open>p\<close>.\<close>

definition clear_private :: "heap \<Rightarrow> addr \<Rightarrow> xml_node \<Rightarrow> heap" where
  "clear_private s p n = s\<lparr>nodes := (nodes s)(p \<mapsto> n\<lparr>x_private := None\<rparr>)\<rparr>"

definition on_libxml_destruct :: "heap \<Rightarrow> addr \<Rightarrow> unit result \<times> heap" where
  "on_libxml_destruct s node =
     (case nodes s node of
        None \<Rightarrow> (Crash, s)
      | Some n \<Rightarrow>
          (case x_type n of
             XML_DOCUMENT_NODE \<Rightarrow>
               (case x_doc n of
                  None \<Rightarrow> (Crash, s)
                | Some d \<Rightarrow>
                    (case nodes s d of
                       None \<Rightarrow> (Crash, s)
                     | Some dn \<Rightarrow>
                         (Ok (), clear_private (delete_JsObj s (x_private dn)) d dn)))
           | _ \<Rightarrow> (Ok (), clear_private (delete_JsObj s (x_private n)) node n)))"

section \<open>The identity registry\<close>

text \<open>
  Modelled from the spec: the macro \<open>LIBXMLJS_GET_MAYBE_BUILD(klass, type, node)\<close> of
  libxmljs.h and the classes \<open>JsObj\<close> and \<open>LibXmlObj\<close> of object_wrap.h, which are
  not among the sources. The spec's \<open>get_or_build(native_node)\<close> returns the existing
  wrapper if one is registered for the node, else constructs the wrapper and registers it
  before returning. The registry slot is the node's \<open>_private\<close> field, the one
  \<open>on_libxml_destruct\<close> clears; the class constructed is the one the call site names.
  A new wrapper and its link object take the next two free addresses.
\<close>

definition get_or_build :: "klass \<Rightarrow> heap \<Rightarrow> addr \<Rightarrow> addr result \<times> heap" where
  "get_or_build k s node =
     (case nodes s node of
        None \<Rightarrow> (Crash, s)
      | Some n \<Rightarrow>
          (case x_private n of
             Some j \<Rightarrow>
               (case jsobjs s j of
                  None \<Rightarrow> (Crash, s)
                | Some w \<Rightarrow> (Ok w, s))
           | None \<Rightarrow>
               (let w = heap_next s; j = Suc w in
                  (Ok w,
                   s\<lparr>nodes := (nodes s)(node \<mapsto> n\<lparr>x_private := Some j\<rparr>),
                     jsobjs := (jsobjs s)(j \<mapsto> w),
                     wrappers := (wrappers s)(w \<mapsto> \<lparr>w_klass = k, xml_obj = node, w_fields = []\<rparr>),
                     heap_next := Suc j\<rparr>))))"

text \<open>
  Modelled from the spec: \<open>JsObj::Unwrap(node)\<close> (object_wrap.h), the handle of the
  JavaScript object registered in the node's \<open>_private\<close> slot.
\<close>

definition JsObj_Unwrap :: "heap \<Rightarrow> addr \<Rightarrow> addr option" where
  "JsObj_Unwrap s node =
     (case nodes s node of
        None \<Rightarrow> None
      | Some n \<Rightarrow> (case x_private n of None \<Rightarrow> None | Some j \<Rightarrow> jsobjs s j))"

text \<open>
  Modelled from the spec: \<open>LibXmlObj::Unwrap<T>(handle)\<close> (object_wrap.h), the C++
  object behind a JavaScript object; NULL when the value is no wrapper.
\<close>

definition Unwrap :: "heap \<Rightarrow> js_value \<Rightarrow> wrapper option" where
  "Unwrap s v = (case v of JsWrapper w \<Rightarrow> wrappers s w | _ \<Rightarrow> None)"

section \<open>The collaborators outside the repository\<close>

subsection \<open>V8\<close>

text \<open>\<open>args[i]\<close>: V8 answers \<open>undefined\<close> beyond the arguments passed.\<close>

definition arg :: "js_value list \<Rightarrow> nat \<Rightarrow> js_value" where
  "arg args i = (if i < length args then args ! i else JsUndefined)"

fun IsString :: "js_value \<Rightarrow> bool" where
  "IsString (JsString _) = True"
| "IsString _ = False"

fun IsNumber :: "js_value \<Rightarrow> bool" where
  "IsNumber (JsNumber _) = True"
| "IsNumber _ = False"

fun IsFunction :: "js_value \<Rightarrow> bool" where
  "IsFunction (JsFunction _) = True"
| "IsFunction _ = False"

fun IsObject :: "js_value \<Rightarrow> bool" where
  "IsObject (JsObject _) = True"
| "IsObject (JsArray _) = True"
| "IsObject (JsFunction _) = True"
| "IsObject (JsWrapper _) = True"
| "IsObject _ = False"

text \<open>\<open>ToNumber()->Value()\<close>, read only where \<open>IsNumber\<close> holds.\<close>

fun NumberValue :: "js_value \<Rightarrow> js_number" where
  "NumberValue (JsNumber x) = x"
| "NumberValue _ = NaN"

text \<open>
  What the engines outside the repository compute is taken as a parameter of the model:
  V8's conversions of a value that is not already a string (\<open>v8_ToString\<close>) or not a
  plain object (\<open>v8_ToObject\<close>, NULL for an empty handle), the call of a JavaScript
  function (\<open>v8_Call\<close>), libxml2's XPath evaluation, its text content of a node, its
  replacement of a node's content, and \<open>Node::set_namespace\<close> of node.cc, which is not
  among the sources.
\<close>

datatype xmlXPathObjectType =
    XPATH_UNDEFINED
  | XPATH_NODESET
  | XPATH_BOOLEAN
  | XPATH_NUMBER
  | XPATH_STRING
  | XPATH_POINT
  | XPATH_RANGE
  | XPATH_LOCATIONSET
  | XPATH_USERS
  | XPATH_XSLT_TREE

text \<open>An \<open>xmlXPathObject\<close>: its type and \<open>nodesetval\<close>, the node table (\<open>nodeTab\<close>
  with its \<open>nodeNr\<close> entries) or NULL.\<close>

record xmlXPathObject =
  xp_type :: xmlXPathObjectType
  nodesetval :: "addr list option"

record externals =
  v8_ToString :: "js_value \<Rightarrow> string"
  v8_ToObject :: "js_value \<Rightarrow> (string \<times> js_value) list option"
  v8_Call :: "nat \<Rightarrow> js_value \<Rightarrow> js_value list \<Rightarrow> heap \<Rightarrow> heap"
  xmlXPathEval :: "heap \<Rightarrow> string \<Rightarrow> addr \<Rightarrow> xmlXPathObject option"
  xmlNodeGetContent :: "heap \<Rightarrow> addr \<Rightarrow> string option"
  xmlNodeSetContent :: "heap \<Rightarrow> addr \<Rightarrow> string \<Rightarrow> heap"
  set_namespace :: "heap \<Rightarrow> addr \<Rightarrow> addr \<Rightarrow> heap"

text \<open>\<open>v8::String::Utf8Value\<close> of a value: the bytes of its string conversion, with
  their length.\<close>

definition ToString :: "externals \<Rightarrow> js_value \<Rightarrow> string" where
  "ToString E v = (case v of JsString str \<Rightarrow> str | _ \<Rightarrow> v8_ToString E v)"

text \<open>
  The sources hand strings on as \<open>char*\<close>: \<open>*utf8value\<close>, every \<open>const char*\<close>
  parameter, \<open>(const xmlChar*)name\<close> and \<open>v8::String::New(const char*)\<close>. What is
  read through such a pointer ends before the first NUL byte.
\<close>

definition c_str :: "string \<Rightarrow> string" where
  "c_str str = takeWhile (\<lambda>c. c \<noteq> CHR 0x00) str"

text \<open>
  An object is given by the assignments that built it, in order: \<open>{a: 1, b: 2, a: 3}\<close> is
  \<open>[(a, 1), (b, 2), (a, 3)]\<close>. A key assigned again keeps its place in the enumeration and
  holds the value assigned last. \<open>ToObject()\<close> yields these assignments,
  \<open>GetPropertyNames()\<close> the keys in the order of their first assignment, and
  \<open>Get(key)\<close> the value assigned last.
\<close>

definition ToObject :: "externals \<Rightarrow> js_value \<Rightarrow> (string \<times> js_value) list option" where
  "ToObject E v = (case v of JsObject ps \<Rightarrow> Some ps | _ \<Rightarrow> v8_ToObject E v)"

fun GetPropertyNames :: "(string \<times> js_value) list \<Rightarrow> string list" where
  "GetPropertyNames [] = []"
| "GetPropertyNames (p # ps) = fst p # filter (\<lambda>k. k \<noteq> fst p) (GetPropertyNames ps)"

definition Get :: "(string \<times> js_value) list \<Rightarrow> string \<Rightarrow> js_value" where
  "Get ps k = (case map_of (rev ps) k of None \<Rightarrow> JsUndefined | Some v \<Rightarrow> v)"

text \<open>\<open>obj->Set(key, v)\<close> on a wrapper object.\<close>

definition Set_field :: "addr \<Rightarrow> string \<Rightarrow> js_value \<Rightarrow> heap \<Rightarrow> heap" where
  "Set_field obj k v s =
     (case wrappers s obj of
        None \<Rightarrow> s
      | Some wr \<Rightarrow>
          s\<lparr>wrappers := (wrappers s)(obj \<mapsto> wr\<lparr>w_fields := AList.update k v (w_fields wr)\<rparr>)\<rparr>)"

subsection \<open>libxml2\<close>

text \<open>
  Modelled from the spec: libxml2's \<open>xmlNodeSetName\<close>. The spec has the rename as an
  in-place mutation of the native node; libxml2 leaves the node kinds that carry no name
  of their own (text, CDATA, comment, document type, fragment, notation, HTML document,
  namespace declaration, XInclude marks) as they are.
\<close>

fun has_settable_name :: "xmlElementType \<Rightarrow> bool" where
  "has_settable_name XML_TEXT_NODE = False"
| "has_settable_name XML_CDATA_SECTION_NODE = False"
| "has_settable_name XML_COMMENT_NODE = False"
| "has_settable_name XML_DOCUMENT_TYPE_NODE = False"
| "has_settable_name XML_DOCUMENT_FRAG_NODE = False"
| "has_settable_name XML_NOTATION_NODE = False"
| "has_settable_name XML_HTML_DOCUMENT_NODE = False"
| "has_settable_name XML_NAMESPACE_DECL = False"
| "has_settable_name XML_XINCLUDE_START = False"
| "has_settable_name XML_XINCLUDE_END = False"
| "has_settable_name _ = True"

definition xmlNodeSetName :: "heap \<Rightarrow> addr \<Rightarrow> string \<Rightarrow> heap" where
  "xmlNodeSetName s cur nm =
     (case nodes s cur of
        None \<Rightarrow> s
      | Some n \<Rightarrow>
          if has_settable_name (x_type n)
          then s\<lparr>nodes := (nodes s)(cur \<mapsto> n\<lparr>x_name := nm\<rparr>)\<rparr>
          else s)"

text \<open>
  Modelled from the spec: libxml2's \<open>xmlHasProp\<close>. An element's attributes are keyed by
  name; the lookup walks the element's property chain and returns the first attribute of
  that name, NULL when there is none or the node is no element. (Defaults declared in a
  DTD and namespaces are outside the model.)
\<close>

definition named :: "heap \<Rightarrow> string \<Rightarrow> addr \<Rightarrow> bool" where
  "named s nm a = (case nodes s a of None \<Rightarrow> False | Some an \<Rightarrow> x_name an = nm)"

definition xmlHasProp :: "heap \<Rightarrow> addr \<Rightarrow> string \<Rightarrow> addr option" where
  "xmlHasProp s node nm =
     (case nodes s node of
        None \<Rightarrow> None
      | Some n \<Rightarrow>
          if x_type n \<noteq> XML_ELEMENT_NODE then None
          else find (named s nm) (x_properties n))"

text \<open>
  Modelled from the spec: libxml2's \<open>xmlSetProp\<close>, which creates or overwrites a single
  attribute (keyed by name, last write wins). An attribute of that name keeps its place
  and gets the new text; otherwise a new attribute node is allocated and appended to the
  property chain. NULL when the node is no element.
\<close>

definition xmlSetProp :: "heap \<Rightarrow> addr \<Rightarrow> string \<Rightarrow> string \<Rightarrow> addr option \<times> heap" where
  "xmlSetProp s node nm v =
     (case nodes s node of
        None \<Rightarrow> (None, s)
      | Some n \<Rightarrow>
          if x_type n \<noteq> XML_ELEMENT_NODE then (None, s)
          else
            (case xmlHasProp s node nm of
               Some a \<Rightarrow>
                 (case nodes s a of
                    None \<Rightarrow> (None, s)
                  | Some an \<Rightarrow> (Some a, s\<lparr>nodes := (nodes s)(a \<mapsto> an\<lparr>x_content := v\<rparr>)\<rparr>))
             | None \<Rightarrow>
                 (let a = heap_next s in
                    (Some a,
                     s\<lparr>nodes := (nodes s)
                          (a \<mapsto> \<lparr>x_private = None, x_type = XML_ATTRIBUTE_NODE, x_name = nm,
                                 x_children = [], x_parent = Some node, x_doc = x_doc n,
                                 x_properties = [], x_content = v\<rparr>,
                           node \<mapsto> n\<lparr>x_properties := x_properties n @ [a]\<rparr>),
                       heap_next := Suc a\<rparr>))))"

text \<open>
  Modelled from the spec: libxml2's \<open>xmlNewDocNode(doc, NULL, name, content)\<close>, which
  creates a detached element of the document with the given name and, when an initial
  text content is given and not empty, one text child holding it.
\<close>

definition xmlNewDocNode :: "heap \<Rightarrow> addr \<Rightarrow> string \<Rightarrow> string option \<Rightarrow> addr \<times> heap" where
  "xmlNewDocNode s doc nm content =
     (let a = heap_next s;
          elem = \<lparr>x_private = None, x_type = XML_ELEMENT_NODE, x_name = nm,
                  x_children = [], x_parent = None, x_doc = Some doc,
                  x_properties = [], x_content = []\<rparr>
      in case content of
           None \<Rightarrow> (a, s\<lparr>nodes := (nodes s)(a \<mapsto> elem), heap_next := Suc a\<rparr>)
         | Some c \<Rightarrow>
             if c = [] then (a, s\<lparr>nodes := (nodes s)(a \<mapsto> elem), heap_next := Suc a\<rparr>)
             else
               (a, s\<lparr>nodes := (nodes s)
                        (a \<mapsto> elem\<lparr>x_children := [Suc a]\<rparr>,
                         Suc a \<mapsto> \<lparr>x_private = None, x_type = XML_TEXT_NODE, x_name = ''text'',
                                     x_children = [], x_parent = Some a, x_doc = Some doc,
                                     x_properties = [], x_content = c\<rparr>),
                      heap_next := Suc (Suc a)\<rparr>))"

section \<open>Sequencing\<close>

text \<open>The next statement runs only when the one before returned normally.\<close>

definition and_then ::
  "'a result \<times> heap \<Rightarrow> ('a \<Rightarrow> heap \<Rightarrow> 'b result \<times> heap) \<Rightarrow> 'b result \<times> heap" where
  "and_then r f =
     (case r of
        (Ok x, s) \<Rightarrow> f x s
      | (Exception m, s) \<Rightarrow> (Exception m, s)
      | (Crash, s) \<Rightarrow> (Crash, s))"

section \<open>attribute.cc\<close>

definition Attribute_New ::
  "externals \<Rightarrow> heap \<Rightarrow> js_value \<Rightarrow> js_value list \<Rightarrow> js_value result \<times> heap" where
  "Attribute_New E s this args =
     (if length args = 1 \<and> arg args 0 = JsNull then (Ok this, s)
      else
        (case Unwrap s (arg args 0) of
           None \<Rightarrow> (Crash, s)
         | Some element \<Rightarrow>
             (let nm = c_str (ToString E (arg args 1));
                  v = c_str (ToString E (arg args 2));
                  (elem, s1) = xmlSetProp s (xml_obj element) nm v
              in case elem of
                   None \<Rightarrow> (Crash, s1)
                 | Some a \<Rightarrow>
                     if length args = 4 \<and> IsObject (arg args 3) then
                       (case Unwrap s1 (arg args 3) of
                          None \<Rightarrow> (Crash, s1)
                        | Some ns \<Rightarrow>
                            and_then (get_or_build Attribute s1 a) (\<lambda>js_attr s2.
                              case Unwrap s2 (JsWrapper js_attr) of
                                None \<Rightarrow> (Crash, s2)
                              | Some attr \<Rightarrow>
                                  and_then
                                    (get_or_build Attribute
                                       (set_namespace E s2 (xml_obj attr) (xml_obj ns)) a)
                                    (\<lambda>w s3. (Ok (JsWrapper w), s3))))
                     else
                       and_then (get_or_build Attribute s1 a)
                         (\<lambda>w s2. (Ok (JsWrapper w), s2)))))"

section \<open>element.cc\<close>

definition set_name :: "heap \<Rightarrow> addr \<Rightarrow> string \<Rightarrow> unit result \<times> heap" where
  "set_name s xml_obj' nm =
     (case nodes s xml_obj' of
        None \<Rightarrow> (Crash, s)
      | Some n \<Rightarrow> (Ok (), xmlNodeSetName s xml_obj' (c_str nm)))"

definition get_name :: "heap \<Rightarrow> addr \<Rightarrow> js_value result \<times> heap" where
  "get_name s xml_obj' =
     (case nodes s xml_obj' of
        None \<Rightarrow> (Crash, s)
      | Some n \<Rightarrow> (Ok (JsString (c_str (x_name n))), s))"

definition get_attr :: "heap \<Rightarrow> addr \<Rightarrow> string \<Rightarrow> js_value result \<times> heap" where
  "get_attr s xml_obj' nm =
     (case nodes s xml_obj' of
        None \<Rightarrow> (Crash, s)
      | Some n \<Rightarrow>
          (case xmlHasProp s xml_obj' (c_str nm) of
             Some attr \<Rightarrow>
               and_then (get_or_build Attribute s attr) (\<lambda>w s1. (Ok (JsWrapper w), s1))
           | None \<Rightarrow> (Ok JsNull, s)))"

text \<open>\<open>NewInstance(3, argv)\<close> runs \<open>Attribute::New\<close> on a fresh instance, which that
  constructor does not return on this path.\<close>

definition set_attr ::
  "externals \<Rightarrow> heap \<Rightarrow> addr \<Rightarrow> string \<Rightarrow> string \<Rightarrow> unit result \<times> heap" where
  "set_attr E s xml_obj' nm v =
     (case JsObj_Unwrap s xml_obj' of
        None \<Rightarrow> (Crash, s)
      | Some h \<Rightarrow>
          and_then
            (Attribute_New E s (JsObject [])
               [JsWrapper h, JsString (c_str nm), JsString (c_str v)])
            (\<lambda>_ s1. (Ok (), s1)))"

text \<open>
  The loop over the property names of an attribute map, as \<open>Element::New\<close> and
  \<open>Element::Attr\<close> both have it: for each name in enumeration order,
  \<open>set_attr(name, attrs->Get(name))\<close>.
\<close>

fun set_attr_each ::
  "externals \<Rightarrow> heap \<Rightarrow> addr \<Rightarrow> (string \<times> js_value) list \<Rightarrow> string list \<Rightarrow>
   unit result \<times> heap" where
  "set_attr_each E s xml_obj' attrs [] = (Ok (), s)"
| "set_attr_each E s xml_obj' attrs (prop_name # props) =
     and_then
       (set_attr E s xml_obj' (c_str prop_name) (c_str (ToString E (Get attrs prop_name))))
       (\<lambda>_ s1. set_attr_each E s1 xml_obj' attrs props)"

text \<open>\<open>while (child && i < idx) { child = child->next; i++; }\<close> on the sibling chain
  that starts at \<open>child\<close>; the result is the pointer the loop ends with.\<close>

fun num_less :: "real \<Rightarrow> js_number \<Rightarrow> bool" where
  "num_less i (Finite x) = (i < x)"
| "num_less i Infinity = True"
| "num_less i NegInfinity = False"
| "num_less i NaN = False"

fun get_child_walk :: "addr list \<Rightarrow> real \<Rightarrow> js_number \<Rightarrow> addr option" where
  "get_child_walk [] i idx = None"
| "get_child_walk (child # siblings) i idx =
     (if num_less i idx then get_child_walk siblings (i + 1) idx else Some child)"

definition get_child :: "heap \<Rightarrow> addr \<Rightarrow> js_number \<Rightarrow> js_value result \<times> heap" where
  "get_child s xml_obj' idx =
     (case nodes s xml_obj' of
        None \<Rightarrow> (Crash, s)
      | Some n \<Rightarrow>
          (case get_child_walk (x_children n) 1 idx of
             None \<Rightarrow> (Ok JsNull, s)
           | Some child \<Rightarrow>
               and_then (get_or_build Element s child) (\<lambda>w s1. (Ok (JsWrapper w), s1))))"

definition set_content :: "externals \<Rightarrow> heap \<Rightarrow> addr \<Rightarrow> string \<Rightarrow> unit result \<times> heap" where
  "set_content E s xml_obj' content =
     (case nodes s xml_obj' of
        None \<Rightarrow> (Crash, s)
      | Some n \<Rightarrow> (Ok (), xmlNodeSetContent E s xml_obj' (c_str content)))"

definition get_content :: "externals \<Rightarrow> heap \<Rightarrow> addr \<Rightarrow> js_value result \<times> heap" where
  "get_content E s xml_obj' =
     (case nodes s xml_obj' of
        None \<Rightarrow> (Crash, s)
      | Some n \<Rightarrow>
          (case xmlNodeGetContent E s xml_obj' of
             None \<Rightarrow> (Crash, s)
           | Some content \<Rightarrow>
               if content \<noteq> [] then (Ok (JsString content), s)
               else (Ok JsNull, s)))"

text \<open>The loop of \<open>find\<close> over \<open>nodeTab\<close>: one wrapper per entry, in order.\<close>

fun find_nodes :: "heap \<Rightarrow> addr list \<Rightarrow> js_value list result \<times> heap" where
  "find_nodes s [] = (Ok [], s)"
| "find_nodes s (node # tab) =
     and_then (get_or_build Element s node) (\<lambda>w s1.
       and_then (find_nodes s1 tab) (\<lambda>ws s2. (Ok (JsWrapper w # ws), s2)))"

definition find' :: "externals \<Rightarrow> heap \<Rightarrow> addr \<Rightarrow> string \<Rightarrow> js_value result \<times> heap" where
  "find' E s xml_obj' xpath =
     (case nodes s xml_obj' of
        None \<Rightarrow> (Crash, s)
      | Some n \<Rightarrow>
          (case xmlXPathEval E s (c_str xpath) xml_obj' of
             None \<Rightarrow> (Ok (JsArray []), s)
           | Some res \<Rightarrow>
               if xp_type res \<noteq> XPATH_NODESET then (Ok (JsArray []), s)
               else
                 (case nodesetval res of
                    None \<Rightarrow> (Crash, s)
                  | Some tab \<Rightarrow>
                      and_then (find_nodes s tab) (\<lambda>ws s1. (Ok (JsArray ws), s1)))))"

definition Element_New ::
  "externals \<Rightarrow> heap \<Rightarrow> js_value \<Rightarrow> js_value list \<Rightarrow> js_value result \<times> heap" where
  "Element_New E s this args =
     (if length args = 0 \<or> arg args 0 = JsNull then (Ok this, s)
      else
        (case Unwrap s (arg args 0) of
           None \<Rightarrow> (Crash, s)
         | Some document \<Rightarrow>
             (let nm = c_str (ToString E (arg args 1));
                  content = (if IsString (arg args 3)
                             then Some (c_str (ToString E (arg args 3)))
                             else None);
                  (elem, s1) = xmlNewDocNode s (xml_obj document) nm content
              in and_then (get_or_build Element s1 elem) (\<lambda>obj s2.
                   case Unwrap s2 (JsWrapper obj) of
                     None \<Rightarrow> (Crash, s2)
                   | Some element \<Rightarrow>
                       and_then
                         (if IsObject (arg args 2) then
                            (case ToObject E (arg args 2) of
                               None \<Rightarrow> (Crash, s2)
                             | Some attributes \<Rightarrow>
                                 set_attr_each E s2 (xml_obj element) attributes
                                   (GetPropertyNames attributes))
                          else (Ok (), s2))
                         (\<lambda>_ s3.
                            let s4 = Set_field obj ''document'' (arg args 0) s3
                            in case arg args 4 of
                                 JsFunction callback \<Rightarrow>
                                   (Ok (JsWrapper obj),
                                    v8_Call E callback (JsWrapper obj) [JsWrapper obj] s4)
                               | _ \<Rightarrow> (Ok (JsWrapper obj), s4))))))"

definition Element_Name ::
  "externals \<Rightarrow> heap \<Rightarrow> js_value \<Rightarrow> js_value list \<Rightarrow> js_value result \<times> heap" where
  "Element_Name E s this args =
     (case Unwrap s this of
        None \<Rightarrow> (Crash, s)
      | Some element \<Rightarrow>
          if length args = 0 then get_name s (xml_obj element)
          else
            and_then (set_name s (xml_obj element) (c_str (ToString E (arg args 0))))
              (\<lambda>_ s1. (Ok this, s1)))"

definition Element_Attr ::
  "externals \<Rightarrow> heap \<Rightarrow> js_value \<Rightarrow> js_value list \<Rightarrow> js_value result \<times> heap" where
  "Element_Attr E s this args =
     (case Unwrap s this of
        None \<Rightarrow> (Crash, s)
      | Some element \<Rightarrow>
          if length args = 1 then
            (if IsString (arg args 0) then
               get_attr s (xml_obj element) (c_str (ToString E (arg args 0)))
             else
               (case ToObject E (arg args 0) of
                  None \<Rightarrow> (Crash, s)
                | Some attrs \<Rightarrow>
                    and_then
                      (set_attr_each E s (xml_obj element) attrs (GetPropertyNames attrs))
                      (\<lambda>_ s1. (Ok this, s1))))
          else (Exception ''Bad argument(s): #attr(name) or #attr({name: value})'', s))"

definition Element_Find ::
  "externals \<Rightarrow> heap \<Rightarrow> js_value \<Rightarrow> js_value list \<Rightarrow> js_value result \<times> heap" where
  "Element_Find E s this args =
     (case Unwrap s this of
        None \<Rightarrow> (Crash, s)
      | Some element \<Rightarrow> find' E s (xml_obj element) (c_str (ToString E (arg args 0))))"

definition Element_Text ::
  "externals \<Rightarrow> heap \<Rightarrow> js_value \<Rightarrow> js_value list \<Rightarrow> js_value result \<times> heap" where
  "Element_Text E s this args =
     (case Unwrap s this of
        None \<Rightarrow> (Crash, s)
      | Some element \<Rightarrow>
          if length args = 0 then get_content E s (xml_obj element)
          else
            and_then (set_content E s (xml_obj element) (c_str (ToString E (arg args 0))))
              (\<lambda>_ s1. (Ok this, s1)))"

definition Element_Child ::
  "heap \<Rightarrow> js_value \<Rightarrow> js_value list \<Rightarrow> js_value result \<times> heap" where
  "Element_Child s this args =
     (case Unwrap s this of
        None \<Rightarrow> (Crash, s)
      | Some element \<Rightarrow>
          if length args > 0 then
            (if \<not> IsNumber (arg args 0) then
               (Exception ''Bad argument: must provide #child() with a number'', s)
             else get_child s (xml_obj element) (NumberValue (arg args 0)))
          else get_child s (xml_obj element) (Finite 1))"

section \<open>Predicates of the statements\<close>

text \<open>A node the registry can serve: it is in the store, and its slot is empty or holds
  a link object that has not been deleted.\<close>

definition registrable :: "heap \<Rightarrow> addr \<Rightarrow> bool" where
  "registrable s a =
     (case nodes s a of
        None \<Rightarrow> False
      | Some n \<Rightarrow> (case x_private n of None \<Rightarrow> True | Some j \<Rightarrow> jsobjs s j \<noteq> None))"

text \<open>Allocation takes addresses from \<open>heap_next\<close> upwards; in a heap built by
  allocation nothing lives there yet.\<close>

definition heap_fresh :: "heap \<Rightarrow> bool" where
  "heap_fresh s \<longleftrightarrow>
     (\<forall>a. heap_next s \<le> a \<longrightarrow> nodes s a = None \<and> jsobjs s a = None \<and> wrappers s a = None)"

text \<open>The attributes of an element as the store has them: the name and the text of each
  node of the property chain, in chain order.\<close>

definition attr_pair :: "heap \<Rightarrow> addr \<Rightarrow> string \<times> string" where
  "attr_pair s a = (case nodes s a of None \<Rightarrow> ([], []) | Some an \<Rightarrow> (x_name an, x_content an))"

definition attrs_of :: "heap \<Rightarrow> addr \<Rightarrow> (string \<times> string) list" where
  "attrs_of s e =
     (case nodes s e of None \<Rightarrow> [] | Some n \<Rightarrow> map (attr_pair s) (x_properties n))"

text \<open>
  An element as the bindings leave it: a live element node that is registered, whose
  wrapper points back at it, and whose property chain is a chain of distinct live nodes
  other than the element itself, each servable by the registry.
\<close>

definition elem_ok :: "heap \<Rightarrow> addr \<Rightarrow> bool" where
  "elem_ok s e \<longleftrightarrow>
     heap_fresh s \<and>
     (\<exists>n h wr. nodes s e = Some n \<and> x_type n = XML_ELEMENT_NODE \<and>
        JsObj_Unwrap s e = Some h \<and> wrappers s h = Some wr \<and> xml_obj wr = e \<and>
        distinct (x_properties n) \<and>
        (\<forall>a\<in>set (x_properties n). a \<noteq> e \<and> registrable s a))"

text \<open>What a step leaves of an element: its name, its children and its registration;
  and every wrapper object stays what it was.\<close>

definition elem_kept :: "heap \<Rightarrow> heap \<Rightarrow> addr \<Rightarrow> bool" where
  "elem_kept s s' e \<longleftrightarrow>
     map_option x_name (nodes s' e) = map_option x_name (nodes s e) \<and>
     map_option x_children (nodes s' e) = map_option x_children (nodes s e) \<and>
     JsObj_Unwrap s' e = JsObj_Unwrap s e \<and>
     (\<forall>w wr. wrappers s w = Some wr \<longrightarrow> wrappers s' w = Some wr)"

text \<open>A configure callback that neither renames nor frees a node behind a wrapper, and
  leaves the wrapper bound to it.\<close>

definition keeps_names :: "(heap \<Rightarrow> heap) \<Rightarrow> bool" where
  "keeps_names t \<longleftrightarrow>
     (\<forall>s w wr n. wrappers s w = Some wr \<and> nodes s (xml_obj wr) = Some n \<longrightarrow>
        (\<exists>wr' n'. wrappers (t s) w = Some wr' \<and> xml_obj wr' = xml_obj wr \<and>
           nodes (t s) (xml_obj wr) = Some n' \<and> x_name n' = x_name n \<and> x_type n' = x_type n))"

text \<open>The wrapper \<open>w\<close> is bound to a live element node of the given name.\<close>

definition names_element :: "heap \<Rightarrow> addr \<Rightarrow> string \<Rightarrow> bool" where
  "names_element s w nm \<longleftrightarrow>
     (\<exists>wr n. wrappers s w = Some wr \<and> nodes s (xml_obj wr) = Some n \<and>
        x_name n = nm \<and> x_type n = XML_ELEMENT_NODE)"

section \<open>Examples\<close>

text \<open>A small heap for the examples: a document 0 with root element 1, which has the
  attribute 2 and the children 3 (an element) and 4 (a text node). The document is
  registered (link object 11, wrapper 10), and so is the root (link 13, wrapper 12).\<close>

definition doc0 :: xml_node where
  "doc0 = \<lparr>x_private = Some 11, x_type = XML_DOCUMENT_NODE, x_name = [],
           x_children = [1], x_parent = None, x_doc = Some 0, x_properties = [],
           x_content = []\<rparr>"

definition root1 :: xml_node where
  "root1 = \<lparr>x_private = Some 13, x_type = XML_ELEMENT_NODE, x_name = ''root'',
            x_children = [3, 4], x_parent = Some 0, x_doc = Some 0, x_properties = [2],
            x_content = []\<rparr>"

definition attr2 :: xml_node where
  "attr2 = \<lparr>x_private = None, x_type = XML_ATTRIBUTE_NODE, x_name = ''id'',
            x_children = [], x_parent = Some 1, x_doc = Some 0, x_properties = [],
            x_content = ''a1''\<rparr>"

definition elem3 :: xml_node where
  "elem3 = \<lparr>x_private = None, x_type = XML_ELEMENT_NODE, x_name = ''child'',
            x_children = [], x_parent = Some 1, x_doc = Some 0, x_properties = [],
            x_content = []\<rparr>"

definition text4 :: xml_node where
  "text4 = \<lparr>x_private = None, x_type = XML_TEXT_NODE, x_name = ''text'',
            x_children = [], x_parent = Some 1, x_doc = Some 0, x_properties = [],
            x_content = ''hello''\<rparr>"

definition heap0 :: heap where
  "heap0 = \<lparr>nodes = [0 \<mapsto> doc0, 1 \<mapsto> root1, 2 \<mapsto> attr2, 3 \<mapsto> elem3, 4 \<mapsto> text4],
            jsobjs = [11 \<mapsto> 10, 13 \<mapsto> 12],
            wrappers = [10 \<mapsto> \<lparr>w_klass = Document, xml_obj = 0, w_fields = []\<rparr>,
                        12 \<mapsto> \<lparr>w_klass = Element, xml_obj = 1, w_fields = []\<rparr>],
            heap_next = 20\<rparr>"

text \<open>An engine for the examples: its text content of a node is the node's own text
  followed by that of its children (exact on the example heap, whose tree has depth one);
  its XPath evaluation always fails; a value that is not a string converts to
  "[object Object]".\<close>

definition engine0 :: externals where
  "engine0 =
     \<lparr>v8_ToString = (\<lambda>v. ''[object Object]''),
      v8_ToObject = (\<lambda>v. Some []),
      v8_Call = (\<lambda>f this args s. s),
      xmlXPathEval = (\<lambda>s xpath ctx. None),
      xmlNodeGetContent = (\<lambda>s a.
         case nodes s a of
           None \<Rightarrow> None
         | Some n \<Rightarrow>
             Some (x_content n @
                   concat (map (\<lambda>c. case nodes s c of None \<Rightarrow> [] | Some cn \<Rightarrow> x_content cn)
                             (x_children n)))),
      xmlNodeSetContent = (\<lambda>s a c. s),
      set_namespace = (\<lambda>s a ns. s)\<rparr>"

text \<open>A second engine for the examples: its XPath evaluation answers \<open>*\<close> with the
  children of the context node, \<open>1+1\<close> with a number, \<open>missing/child\<close> (a step from
  an empty node set) with the node set that has no table, as libxml2 does, and fails on
  everything else.\<close>

definition engine1 :: externals where
  "engine1 = engine0
     \<lparr>xmlXPathEval := (\<lambda>s xpath ctx.
        if xpath = ''*'' then
          Some \<lparr>xp_type = XPATH_NODESET,
                nodesetval = (case nodes s ctx of None \<Rightarrow> None | Some n \<Rightarrow> Some (x_children n))\<rparr>
        else if xpath = ''1+1'' then Some \<lparr>xp_type = XPATH_NUMBER, nodesetval = None\<rparr>
        else if xpath = ''missing/child'' then
          Some \<lparr>xp_type = XPATH_NODESET, nodesetval = None\<rparr>
        else None)\<rparr>"

section \<open>Theorems\<close>

lemma and_then_simps [simp]:
  "and_then (Ok x, s) f = f x s"
  "and_then (Exception m, s) f = (Exception m, s)"
  "and_then (Crash, s) f = (Crash, s)"
  by (simp_all add: and_then_def)

lemma c_str_idem [simp]: "c_str (c_str str) = c_str str"
  by (simp add: c_str_def)

lemma c_str_whole: "CHR 0x00 \<notin> set str \<Longrightarrow> c_str str = str"
  by (auto simp: c_str_def takeWhile_eq_all_conv)

subsection \<open>The destruction notification\<close>

text \<open>
  C1. When the engine frees a node, the notification removes the registry mapping in the
  same call. For a live node that is not a document, the link object stored in the node's
  own \<open>_private\<close> slot is deleted and that slot is set to NULL; for a document node the
  same is done through \<open>node->doc->_private\<close>, the document's slot, and the node's own
  slot is touched only if it is that slot. Nothing else changes: the other nodes, the
  other link objects and the JavaScript objects stay as they were.
\<close>

theorem on_libxml_destruct_unregisters:
  assumes live: "nodes s node = Some n"
    and doc: "x_type n = XML_DOCUMENT_NODE \<Longrightarrow> x_doc n = Some d \<and> nodes s d = Some dn"
  shows "\<exists>s'. on_libxml_destruct s node = (Ok (), s') \<and>
           wrappers s' = wrappers s \<and> heap_next s' = heap_next s \<and>
           (if x_type n = XML_DOCUMENT_NODE
            then nodes s' = (nodes s)(d \<mapsto> dn\<lparr>x_private := None\<rparr>) \<and>
                 jsobjs s' = (case x_private dn of None \<Rightarrow> jsobjs s
                              | Some j \<Rightarrow> (jsobjs s)(j := None))
            else nodes s' = (nodes s)(node \<mapsto> n\<lparr>x_private := None\<rparr>) \<and>
                 jsobjs s' = (case x_private n of None \<Rightarrow> jsobjs s
                              | Some j \<Rightarrow> (jsobjs s)(j := None)))"
proof (cases "x_type n = XML_DOCUMENT_NODE")
  case True
  with doc have d: "x_doc n = Some d" "nodes s d = Some dn" by simp_all
  show ?thesis
    using live True d
    by (simp add: on_libxml_destruct_def clear_private_def delete_JsObj_def
        split: option.splits)
next
  case False
  show ?thesis
    using live False
    by (simp add: on_libxml_destruct_def clear_private_def delete_JsObj_def
        split: option.splits xmlElementType.splits)
qed

theorem on_libxml_destruct_unregisters_witness:
  "(\<exists>s'. on_libxml_destruct heap0 0 = (Ok (), s') \<and>
         nodes s' 0 = Some (doc0\<lparr>x_private := None\<rparr>) \<and> nodes s' 1 = Some root1 \<and>
         jsobjs s' 11 = None \<and> jsobjs s' 13 = Some 12 \<and> wrappers s' = wrappers heap0) \<and>
   (\<exists>s'. on_libxml_destruct heap0 1 = (Ok (), s') \<and>
         nodes s' 1 = Some (root1\<lparr>x_private := None\<rparr>) \<and> nodes s' 0 = Some doc0 \<and>
         jsobjs s' 13 = None \<and> jsobjs s' 11 = Some 10 \<and> wrappers s' = wrappers heap0)"
proof -
  have d: "nodes heap0 0 = Some doc0" and r: "nodes heap0 1 = Some root1"
    by (simp_all add: heap0_def)
  have dd: "x_type doc0 = XML_DOCUMENT_NODE \<Longrightarrow> x_doc doc0 = Some 0 \<and> nodes heap0 0 = Some doc0"
    by (simp add: heap0_def doc0_def)
  have rr: "x_type root1 = XML_DOCUMENT_NODE \<Longrightarrow> x_doc root1 = Some 0 \<and> nodes heap0 0 = Some doc0"
    by (simp add: heap0_def root1_def)
  from on_libxml_destruct_unregisters [OF d dd] on_libxml_destruct_unregisters [OF r rr]
  show ?thesis
    by (auto simp: heap0_def doc0_def root1_def)
qed

subsection \<open>The registry\<close>

text \<open>
  C2. \<open>get_or_build\<close> is idempotent: a second lookup of the same node, right after the
  first and whatever class the second call site names, returns what the first returned,
  the same wrapper handle, and leaves the heap as the first left it. For a live node that
  is not yet registered the first lookup returns a wrapper whose \<open>xml_obj\<close> is that
  node and which is the one registered in the node's slot; the second lookup then returns
  that same wrapper, so both expose the same state and mutate the same native node.
\<close>

theorem get_or_build_idempotent:
  "get_or_build k' (snd (get_or_build k s node)) node = get_or_build k s node \<and>
   (\<forall>n. nodes s node = Some n \<and> x_private n = None \<longrightarrow>
      (\<exists>w s'. get_or_build k s node = (Ok w, s') \<and>
         JsObj_Unwrap s' node = Some w \<and>
         Unwrap s' (JsWrapper w) = Some \<lparr>w_klass = k, xml_obj = node, w_fields = []\<rparr>))"
  by (auto simp: get_or_build_def JsObj_Unwrap_def Unwrap_def Let_def split: option.splits)

theorem get_or_build_idempotent_witness:
  "get_or_build Attribute (snd (get_or_build Element heap0 3)) 3 = get_or_build Element heap0 3 \<and>
   fst (get_or_build Element heap0 3) = Ok 20 \<and>
   (\<exists>w s'. get_or_build Element heap0 3 = (Ok w, s') \<and>
         JsObj_Unwrap s' 3 = Some w \<and>
         Unwrap s' (JsWrapper w) = Some \<lparr>w_klass = Element, xml_obj = 3, w_fields = []\<rparr>) \<and>
   get_or_build Element heap0 1 = (Ok 12, heap0)"
proof -
  have a: "nodes heap0 3 = Some elem3 \<and> x_private elem3 = None"
    by (simp add: heap0_def elem3_def)
  have b: "fst (get_or_build Element heap0 3) = Ok 20"
    by (simp add: get_or_build_def heap0_def elem3_def Let_def)
  have c: "get_or_build Element heap0 1 = (Ok 12, heap0)"
    by (simp add: get_or_build_def heap0_def root1_def)
  from get_or_build_idempotent [of Attribute Element heap0 3] a b c
  show ?thesis by blast
qed

text \<open>What a lookup leaves in place.\<close>

lemma get_or_build_no_exception: "fst (get_or_build k s a) \<noteq> Exception m"
  by (simp add: get_or_build_def Let_def split: option.splits)

lemma get_or_build_registrable:
  assumes "registrable s a"
  shows "\<exists>w s'. get_or_build k s a = (Ok w, s') \<and> JsObj_Unwrap s' a = Some w"
  using assms
  by (auto simp: registrable_def get_or_build_def JsObj_Unwrap_def Let_def split: option.splits)

lemma get_or_build_keeps_name:
  "get_or_build k s a = (r, s') \<Longrightarrow> named s' nm b = named s nm b"
  by (cases "b = a") (auto simp: get_or_build_def named_def Let_def split: option.splits)

lemma get_or_build_frame:
  assumes fr: "heap_fresh s" and gob: "get_or_build k s a = (Ok w, s')"
  shows "heap_fresh s'"
    and "JsObj_Unwrap s' a = Some w"
    and "JsObj_Unwrap s b = Some v \<Longrightarrow> JsObj_Unwrap s' b = Some v"
    and "registrable s b \<Longrightarrow> registrable s' b"
proof -
  from gob obtain n where n: "nodes s a = Some n"
    by (auto simp: get_or_build_def split: option.splits)
  show "heap_fresh s'"
    using fr gob n
    by (auto simp: get_or_build_def heap_fresh_def Let_def split: option.splits)
  show "JsObj_Unwrap s' a = Some w"
    using gob n
    by (auto simp: get_or_build_def JsObj_Unwrap_def Let_def split: option.splits)
  have free: "jsobjs s (Suc (heap_next s)) = None"
    using fr by (simp add: heap_fresh_def)
  show "JsObj_Unwrap s' b = Some v" if "JsObj_Unwrap s b = Some v"
    using gob n that free
    by (cases "b = a")
      (auto simp: get_or_build_def JsObj_Unwrap_def Let_def split: option.splits)
  show "registrable s' b" if "registrable s b"
    using gob n that free
    by (cases "b = a")
      (auto simp: get_or_build_def registrable_def Let_def split: option.splits)
qed

lemma get_or_build_nodes:
  assumes "get_or_build k s a = (Ok w, s')"
  shows "\<exists>n p. nodes s a = Some n \<and> nodes s' = (nodes s)(a \<mapsto> n\<lparr>x_private := p\<rparr>)"
proof -
  from assms obtain n where n: "nodes s a = Some n"
    by (auto simp: get_or_build_def split: option.splits)
  show ?thesis
  proof (cases "x_private n")
    case None
    with assms n have "nodes s' = (nodes s)(a \<mapsto> n\<lparr>x_private := Some (Suc (heap_next s))\<rparr>)"
      by (auto simp: get_or_build_def Let_def)
    with n show ?thesis by blast
  next
    case (Some j)
    with assms n have "s' = s"
      by (auto simp: get_or_build_def split: option.splits)
    moreover have "n\<lparr>x_private := Some j\<rparr> = n" using Some by simp
    ultimately have "nodes s' = (nodes s)(a \<mapsto> n\<lparr>x_private := Some j\<rparr>)"
      using n by (simp add: fun_upd_idem)
    with n show ?thesis by blast
  qed
qed

lemma get_or_build_wrappers:
  assumes "heap_fresh s" and "get_or_build k s a = (Ok w, s')" and "wrappers s h = Some wr"
  shows "wrappers s' h = Some wr"
proof -
  have "h \<noteq> heap_next s" using assms(1,3) by (auto simp: heap_fresh_def)
  then show ?thesis
    using assms(2,3) by (auto simp: get_or_build_def Let_def split: option.splits)
qed

lemma JsObj_Unwrap_same:
  "nodes s' e = Some n' \<Longrightarrow> nodes s e = Some n \<Longrightarrow> x_private n' = x_private n \<Longrightarrow>
   jsobjs s' = jsobjs s \<Longrightarrow> JsObj_Unwrap s' e = JsObj_Unwrap s e"
  by (simp add: JsObj_Unwrap_def split: option.splits)

lemma heap_fresh_heap0: "heap_fresh heap0"
  by (auto simp: heap_fresh_def heap0_def)

subsection \<open>Element::Child\<close>

lemma get_child_walk_above:
  "real (length cs) + i - 1 < x \<Longrightarrow> get_child_walk cs i (Finite x) = None"
  by (induction cs arbitrary: i) auto

lemma get_child_walk_Infinity: "get_child_walk cs i Infinity = None"
  by (induction cs arbitrary: i) auto

lemma get_child_walk_nth:
  "j \<le> i \<Longrightarrow> i - j < length cs \<Longrightarrow>
   get_child_walk cs (real j) (Finite (real i)) = Some (cs ! (i - j))"
proof (induction cs arbitrary: j)
  case Nil
  then show ?case by simp
next
  case (Cons c cs)
  show ?case
  proof (cases "j < i")
    case True
    then have "Suc j \<le> i" "i - Suc j < length cs" using Cons.prems by auto
    from Cons.IH [OF this] True show ?thesis
      by (simp add: Suc_diff_Suc add.commute)
  next
    case False
    with Cons.prems have "i = j" by simp
    then show ?thesis by simp
  qed
qed

lemma get_child_walk_low:
  "x \<le> i \<Longrightarrow> get_child_walk cs i (Finite x) = (case cs of [] \<Rightarrow> None | c # _ \<Rightarrow> Some c)"
  by (cases cs) auto

lemma get_child_no_exception: "fst (get_child s e idx) \<noteq> Exception m"
proof -
  have "fst (and_then (get_or_build Element s c) (\<lambda>w s1. (Ok (JsWrapper w), s1))) \<noteq> Exception m"
    for c
    using get_or_build_no_exception [of Element s c m]
    by (cases "get_or_build Element s c") (auto simp: and_then_def split: result.splits)
  then show ?thesis
    by (simp add: get_child_def split: option.splits)
qed

text \<open>
  C5 (as amended). For an element wrapper on a live node, \<open>child(i)\<close> is a 1-based
  positional lookup among the direct children: for \<open>1 \<le> i \<le>\<close> the number of children
  it returns the wrapper the registry holds for the i-th child; for every index greater
  than the number of children (fractional or infinite ones too) it returns null and leaves
  the heap alone; \<open>child()\<close> is \<open>child(1)\<close>; with a numeric argument it never throws.
  \<open>child(0)\<close> returns null only when there are no children: when there is one, it
  returns what \<open>child(1)\<close> returns, the first child.
\<close>

theorem Element_Child_positional:
  assumes el: "Unwrap s this = Some el" and n: "nodes s (xml_obj el) = Some n"
  shows "(\<forall>i. 1 \<le> i \<and> i \<le> length (x_children n) \<and> registrable s (x_children n ! (i - 1)) \<longrightarrow>
            (\<exists>w s'. Element_Child s this [JsNumber (Finite (real i))] = (Ok (JsWrapper w), s') \<and>
                     JsObj_Unwrap s' (x_children n ! (i - 1)) = Some w)) \<and>
         (\<forall>x. real (length (x_children n)) < x \<longrightarrow>
            Element_Child s this [JsNumber (Finite x)] = (Ok JsNull, s)) \<and>
         Element_Child s this [JsNumber Infinity] = (Ok JsNull, s) \<and>
         (x_children n = [] \<longrightarrow> Element_Child s this [JsNumber (Finite 0)] = (Ok JsNull, s)) \<and>
         (x_children n \<noteq> [] \<longrightarrow>
            Element_Child s this [JsNumber (Finite 0)] = Element_Child s this [JsNumber (Finite 1)]) \<and>
         Element_Child s this [] = Element_Child s this [JsNumber (Finite 1)] \<and>
         (\<forall>idx m. fst (Element_Child s this [JsNumber idx]) \<noteq> Exception m)"
proof -
  let ?cs = "x_children n"
  have call: "Element_Child s this [JsNumber idx] = get_child s (xml_obj el) idx" for idx
    using el by (simp add: Element_Child_def arg_def)
  have A: "\<exists>w s'. get_child s (xml_obj el) (Finite (real i)) = (Ok (JsWrapper w), s') \<and>
                  JsObj_Unwrap s' (?cs ! (i - 1)) = Some w"
    if i: "1 \<le> i" "i \<le> length ?cs" and reg: "registrable s (?cs ! (i - 1))" for i
  proof -
    have walk: "get_child_walk ?cs (real 1) (Finite (real i)) = Some (?cs ! (i - 1))"
      using i by (intro get_child_walk_nth) auto
    from get_or_build_registrable [OF reg]
    obtain w s' where "get_or_build Element s (?cs ! (i - 1)) = (Ok w, s')"
      "JsObj_Unwrap s' (?cs ! (i - 1)) = Some w"
      by blast
    with walk show ?thesis using n by (simp add: get_child_def)
  qed
  have B: "get_child s (xml_obj el) (Finite x) = (Ok JsNull, s)" if "real (length ?cs) < x" for x
  proof -
    have "get_child_walk ?cs 1 (Finite x) = None"
      using that by (intro get_child_walk_above) simp
    then show ?thesis using n by (simp add: get_child_def)
  qed
  have C: "get_child s (xml_obj el) Infinity = (Ok JsNull, s)"
    using n by (simp add: get_child_def get_child_walk_Infinity)
  have D: "get_child s (xml_obj el) (Finite 0) = (Ok JsNull, s)" if "?cs = []"
    using n that by (simp add: get_child_def)
  have E: "get_child s (xml_obj el) (Finite 0) = get_child s (xml_obj el) (Finite 1)"
    using n by (simp add: get_child_def get_child_walk_low)
  have F: "Element_Child s this [] = get_child s (xml_obj el) (Finite 1)"
    using el by (simp add: Element_Child_def)
  show ?thesis
    unfolding call F using A B C D E get_child_no_exception by blast
qed

text \<open>The claim as it was stated has \<open>child(0)\<close> return null for every element. On the
  example heap the root has the children 3 and 4, and \<open>child(0)\<close> returns a wrapper of
  node 3.\<close>

theorem Element_Child_zero_counterexample:
  "fst (Element_Child heap0 (JsWrapper 12) [JsNumber (Finite 0)]) = Ok (JsWrapper 20) \<and>
   fst (Element_Child heap0 (JsWrapper 12) [JsNumber (Finite 0)]) \<noteq> Ok JsNull \<and>
   JsObj_Unwrap (snd (Element_Child heap0 (JsWrapper 12) [JsNumber (Finite 0)])) 3 = Some 20"
  by (simp add: Element_Child_def Unwrap_def heap0_def root1_def elem3_def arg_def
      get_child_def get_or_build_def JsObj_Unwrap_def Let_def)

theorem Element_Child_positional_witness:
  "(\<exists>w s'. Element_Child heap0 (JsWrapper 12) [JsNumber (Finite (real 2))] = (Ok (JsWrapper w), s') \<and>
           JsObj_Unwrap s' 4 = Some w) \<and>
   Element_Child heap0 (JsWrapper 12) [JsNumber (Finite 3)] = (Ok JsNull, heap0) \<and>
   Element_Child heap0 (JsWrapper 12) [JsNumber (Finite 0)] =
     Element_Child heap0 (JsWrapper 12) [JsNumber (Finite 1)] \<and>
   fst (Element_Child heap0 (JsWrapper 12) [JsNumber (Finite 1)]) = Ok (JsWrapper 20)"
proof -
  have el: "Unwrap heap0 (JsWrapper 12) = Some \<lparr>w_klass = Element, xml_obj = 1, w_fields = []\<rparr>"
    by (simp add: Unwrap_def heap0_def)
  have n: "nodes heap0 (xml_obj \<lparr>w_klass = Element, xml_obj = 1, w_fields = []\<rparr>) = Some root1"
    by (simp add: heap0_def)
  have cs: "x_children root1 = [3, 4]" by (simp add: root1_def)
  have reg: "registrable heap0 4" by (simp add: registrable_def heap0_def text4_def)
  have one: "fst (Element_Child heap0 (JsWrapper 12) [JsNumber (Finite 1)]) = Ok (JsWrapper 20)"
    by (simp add: Element_Child_def Unwrap_def heap0_def root1_def elem3_def arg_def
      get_child_def get_or_build_def Let_def)
  from Element_Child_positional [OF el n] have
    "\<forall>i. 1 \<le> i \<and> i \<le> length (x_children root1) \<and> registrable heap0 (x_children root1 ! (i - 1)) \<longrightarrow>
       (\<exists>w s'. Element_Child heap0 (JsWrapper 12) [JsNumber (Finite (real i))] = (Ok (JsWrapper w), s') \<and>
                JsObj_Unwrap s' (x_children root1 ! (i - 1)) = Some w)"
    and "\<forall>x. real (length (x_children root1)) < x \<longrightarrow>
            Element_Child heap0 (JsWrapper 12) [JsNumber (Finite x)] = (Ok JsNull, heap0)"
    and "x_children root1 \<noteq> [] \<longrightarrow>
            Element_Child heap0 (JsWrapper 12) [JsNumber (Finite 0)] =
            Element_Child heap0 (JsWrapper 12) [JsNumber (Finite 1)]"
    by blast+
  from this(1) [rule_format, of 2] this(2) [rule_format, of 3] this(3) cs reg one
  show ?thesis by simp
qed

text \<open>
  C9. \<open>child\<close> called on an element wrapper with a first argument that is not a number
  throws, in that call, the exception "Bad argument: must provide #child() with a number",
  and the heap it leaves is the heap it found: no node, no registry slot, no link
  object and no wrapper has changed.
\<close>

theorem Element_Child_rejects_non_number:
  assumes "Unwrap s this = Some el" and "args \<noteq> []" and "\<not> IsNumber (args ! 0)"
  shows "Element_Child s this args =
           (Exception ''Bad argument: must provide #child() with a number'', s)"
  using assms by (simp add: Element_Child_def arg_def)

theorem Element_Child_rejects_non_number_witness:
  "Element_Child heap0 (JsWrapper 12) [JsString ''1''] =
     (Exception ''Bad argument: must provide #child() with a number'', heap0) \<and>
   Element_Child heap0 (JsWrapper 12) [JsUndefined, JsNumber (Finite 1)] =
     (Exception ''Bad argument: must provide #child() with a number'', heap0)"
proof -
  have el: "Unwrap heap0 (JsWrapper 12) = Some \<lparr>w_klass = Element, xml_obj = 1, w_fields = []\<rparr>"
    by (simp add: Unwrap_def heap0_def)
  show ?thesis
    using Element_Child_rejects_non_number [OF el, of "[JsString ''1'']"]
      Element_Child_rejects_non_number [OF el, of "[JsUndefined, JsNumber (Finite 1)]"]
    by simp
qed

subsection \<open>Element::Text\<close>

text \<open>
  C10. \<open>text()\<close> with no arguments never returns the empty string. On an element
  wrapper whose live node has the text content \<open>c\<close> (what libxml2's
  \<open>xmlNodeGetContent\<close> answers), it returns null when \<open>c\<close> is empty and the string
  \<open>c\<close> otherwise, and leaves the heap alone.
\<close>

theorem Element_Text_never_empty:
  "fst (Element_Text E s this []) \<noteq> Ok (JsString []) \<and>
   (\<forall>el n c. Unwrap s this = Some el \<and> nodes s (xml_obj el) = Some n \<and>
        xmlNodeGetContent E s (xml_obj el) = Some c \<longrightarrow>
      Element_Text E s this [] = (if c = [] then (Ok JsNull, s) else (Ok (JsString c), s)))"
  by (auto simp: Element_Text_def get_content_def split: option.splits)

theorem Element_Text_never_empty_witness:
  "Element_Text engine0 heap0 (JsWrapper 12) [] = (Ok (JsString ''hello''), heap0) \<and>
   Element_Text engine0 (snd (get_or_build Element heap0 3)) (JsWrapper 20) [] =
     (Ok JsNull, snd (get_or_build Element heap0 3)) \<and>
   fst (Element_Text engine0 heap0 (JsWrapper 12) []) \<noteq> Ok (JsString [])"
proof -
  let ?s = "snd (get_or_build Element heap0 3)"
  have a: "Unwrap heap0 (JsWrapper 12) = Some \<lparr>w_klass = Element, xml_obj = 1, w_fields = []\<rparr> \<and>
           nodes heap0 (xml_obj \<lparr>w_klass = Element, xml_obj = 1, w_fields = []\<rparr>) = Some root1 \<and>
           xmlNodeGetContent engine0 heap0 (xml_obj \<lparr>w_klass = Element, xml_obj = 1, w_fields = []\<rparr>)
             = Some ''hello''"
    by (simp add: Unwrap_def heap0_def engine0_def root1_def elem3_def text4_def)
  have b: "Unwrap ?s (JsWrapper 20) = Some \<lparr>w_klass = Element, xml_obj = 3, w_fields = []\<rparr> \<and>
           nodes ?s (xml_obj \<lparr>w_klass = Element, xml_obj = 3, w_fields = []\<rparr>)
             = Some (elem3\<lparr>x_private := Some 21\<rparr>) \<and>
           xmlNodeGetContent engine0 ?s (xml_obj \<lparr>w_klass = Element, xml_obj = 3, w_fields = []\<rparr>)
             = Some []"
    by (simp add: Unwrap_def get_or_build_def Let_def heap0_def engine0_def elem3_def)
  note t0 = Element_Text_never_empty [of engine0 heap0 "JsWrapper 12", THEN conjunct1]
  note t1 = Element_Text_never_empty [of engine0 heap0 "JsWrapper 12", THEN conjunct2,
      rule_format, OF a]
  note t2 = Element_Text_never_empty [of engine0 ?s "JsWrapper 20", THEN conjunct2,
      rule_format, OF b]
  from t0 t1 t2 show ?thesis by simp
qed

subsection \<open>Element::Attr, the lookup\<close>

lemma find_named_None: "find (named s nm) ps = None \<longleftrightarrow> \<not> (\<exists>a\<in>set ps. named s nm a)"
  by (auto simp: find_None_iff)

text \<open>
  C7 (as amended). On a wrapper of a live element, \<open>attr(name)\<close> looks the name up as a
  C string, that is up to its first NUL character (the whole name when it has none). It
  returns null, and changes nothing, when no attribute of the element has that name. When
  one has, and the attributes' registry slots are intact, it returns a wrapper for an
  attribute of that name: the one the registry holds for it afterwards.
\<close>

theorem Element_Attr_lookup:
  assumes el: "Unwrap s this = Some el" and n: "nodes s (xml_obj el) = Some n"
    and ty: "x_type n = XML_ELEMENT_NODE"
  shows "(\<not> (\<exists>a\<in>set (x_properties n). named s (c_str nm) a) \<longrightarrow>
            Element_Attr E s this [JsString nm] = (Ok JsNull, s)) \<and>
         ((\<exists>a\<in>set (x_properties n). named s (c_str nm) a) \<and>
          (\<forall>a\<in>set (x_properties n). registrable s a) \<longrightarrow>
            (\<exists>a w s'. a \<in> set (x_properties n) \<and> named s' (c_str nm) a \<and>
               Element_Attr E s this [JsString nm] = (Ok (JsWrapper w), s') \<and>
               JsObj_Unwrap s' a = Some w))"
proof -
  have call: "Element_Attr E s this [JsString nm] = get_attr s (xml_obj el) (c_str nm)"
    using el by (simp add: Element_Attr_def arg_def ToString_def)
  have has: "xmlHasProp s (xml_obj el) (c_str nm) = find (named s (c_str nm)) (x_properties n)"
    using n ty by (simp add: xmlHasProp_def)
  have absent: "get_attr s (xml_obj el) (c_str nm) = (Ok JsNull, s)"
    if "\<not> (\<exists>a\<in>set (x_properties n). named s (c_str nm) a)"
  proof -
    from that have "find (named s (c_str nm)) (x_properties n) = None"
      by (simp add: find_named_None)
    then show ?thesis using n has by (simp add: get_attr_def)
  qed
  have present: "\<exists>a w s'. a \<in> set (x_properties n) \<and> named s' (c_str nm) a \<and>
               get_attr s (xml_obj el) (c_str nm) = (Ok (JsWrapper w), s') \<and> JsObj_Unwrap s' a = Some w"
    if ex: "\<exists>a\<in>set (x_properties n). named s (c_str nm) a"
      and reg: "\<forall>a\<in>set (x_properties n). registrable s a"
  proof -
    from ex obtain a where a: "find (named s (c_str nm)) (x_properties n) = Some a"
      by (cases "find (named s (c_str nm)) (x_properties n)") (auto simp: find_named_None)
    then have mem: "a \<in> set (x_properties n)" and nm: "named s (c_str nm) a"
      by (auto simp: find_Some_iff)
    from reg mem have "registrable s a" by blast
    from get_or_build_registrable [OF this]
    obtain w s' where gob: "get_or_build Attribute s a = (Ok w, s')"
      and unw: "JsObj_Unwrap s' a = Some w"
      by blast
    from get_or_build_keeps_name [OF gob] nm have "named s' (c_str nm) a" by simp
    with mem unw gob a has n show ?thesis
      by (auto simp: get_attr_def)
  qed
  show ?thesis unfolding call using absent present by blast
qed

text \<open>The claim as it was stated has \<open>attr(name)\<close> return null for every name that no
  attribute of the element has. On the example heap the only attribute of the root is
  \<open>id\<close>, so none is named \<open>id\<close>, NUL, \<open>x\<close>; yet \<open>attr\<close> of that name returns a
  wrapper, the one registered for the attribute \<open>id\<close> (node 2).\<close>

theorem Element_Attr_lookup_nul_counterexample:
  "fst (Element_Attr engine0 heap0 (JsWrapper 12)
          [JsString [CHR ''i'', CHR ''d'', CHR 0x00, CHR ''x'']]) = Ok (JsWrapper 20) \<and>
   JsObj_Unwrap (snd (Element_Attr engine0 heap0 (JsWrapper 12)
          [JsString [CHR ''i'', CHR ''d'', CHR 0x00, CHR ''x'']])) 2 = Some 20 \<and>
   nodes heap0 1 = Some root1 \<and> x_properties root1 = [2] \<and>
   \<not> named heap0 [CHR ''i'', CHR ''d'', CHR 0x00, CHR ''x''] 2 \<and> named heap0 ''id'' 2"
  by (simp add: Element_Attr_def Unwrap_def heap0_def root1_def attr2_def arg_def
      ToString_def c_str_def get_attr_def xmlHasProp_def named_def get_or_build_def
      JsObj_Unwrap_def Let_def)

theorem Element_Attr_lookup_witness:
  "Element_Attr engine0 heap0 (JsWrapper 12) [JsString ''missing''] = (Ok JsNull, heap0) \<and>
   (\<exists>a w s'. a \<in> set [2] \<and> named s' ''id'' a \<and>
      Element_Attr engine0 heap0 (JsWrapper 12) [JsString ''id''] = (Ok (JsWrapper w), s') \<and>
      JsObj_Unwrap s' a = Some w)"
proof -
  have el: "Unwrap heap0 (JsWrapper 12) = Some \<lparr>w_klass = Element, xml_obj = 1, w_fields = []\<rparr>"
    by (simp add: Unwrap_def heap0_def)
  have n: "nodes heap0 (xml_obj \<lparr>w_klass = Element, xml_obj = 1, w_fields = []\<rparr>) = Some root1"
    by (simp add: heap0_def)
  have ty: "x_type root1 = XML_ELEMENT_NODE" and ps: "x_properties root1 = [2]"
    by (simp_all add: root1_def)
  have missing: "\<not> (\<exists>a\<in>set (x_properties root1). named heap0 (c_str ''missing'') a)"
    by (simp add: root1_def named_def heap0_def attr2_def c_str_def)
  have there: "(\<exists>a\<in>set (x_properties root1). named heap0 (c_str ''id'') a) \<and>
               (\<forall>a\<in>set (x_properties root1). registrable heap0 a)"
    by (simp add: root1_def named_def registrable_def heap0_def attr2_def c_str_def)
  note t1 = Element_Attr_lookup [OF el n ty, of "''missing''" engine0, THEN conjunct1,
      rule_format, OF missing]
  note t2 = Element_Attr_lookup [OF el n ty, of "''id''" engine0, THEN conjunct2,
      rule_format, OF there]
  from t1 t2 ps show ?thesis by (simp add: c_str_def)
qed

subsection \<open>Element::Find\<close>

lemma find_nodes_registers:
  assumes "heap_fresh s" and "\<forall>a\<in>set tab. registrable s a"
  shows "\<exists>ws s'. find_nodes s tab = (Ok (map JsWrapper ws), s') \<and> length ws = length tab \<and>
           (\<forall>i<length tab. JsObj_Unwrap s' (tab ! i) = Some (ws ! i)) \<and>
           (\<forall>b v. JsObj_Unwrap s b = Some v \<longrightarrow> JsObj_Unwrap s' b = Some v)"
  using assms
proof (induction tab arbitrary: s)
  case Nil
  then show ?case by simp
next
  case (Cons a tab)
  from Cons.prems have "registrable s a" by simp
  from get_or_build_registrable [OF this]
  obtain w s1 where gob: "get_or_build Element s a = (Ok w, s1)" by blast
  note fr = get_or_build_frame [OF Cons.prems(1) gob]
  have "\<forall>b\<in>set tab. registrable s1 b" using Cons.prems(2) fr(4) by simp
  from Cons.IH [OF fr(1) this]
  obtain ws s2 where rest: "find_nodes s1 tab = (Ok (map JsWrapper ws), s2)"
    and len: "length ws = length tab"
    and reg: "\<forall>i<length tab. JsObj_Unwrap s2 (tab ! i) = Some (ws ! i)"
    and keep: "\<forall>b v. JsObj_Unwrap s1 b = Some v \<longrightarrow> JsObj_Unwrap s2 b = Some v"
    by blast
  have a: "JsObj_Unwrap s2 a = Some w" using keep fr(2) by blast
  have "find_nodes s (a # tab) = (Ok (map JsWrapper (w # ws)), s2)"
    using gob rest by simp
  moreover have "\<forall>i<length (a # tab). JsObj_Unwrap s2 ((a # tab) ! i) = Some ((w # ws) ! i)"
    using a reg by (auto simp: nth_Cons split: nat.splits)
  moreover have "\<forall>b v. JsObj_Unwrap s b = Some v \<longrightarrow> JsObj_Unwrap s2 b = Some v"
    using keep fr(3) by blast
  ultimately show ?case using len
    by (intro exI [of _ "w # ws"] exI [of _ s2]) simp
qed

lemma find_nodes_no_exception: "fst (find_nodes s tab) \<noteq> Exception m"
proof (induction tab arbitrary: s)
  case Nil
  then show ?case by simp
next
  case (Cons a tab)
  show ?case
  proof (cases "get_or_build Element s a")
    case (Pair r s1)
    with get_or_build_no_exception [of Element s a] have r: "r \<noteq> Exception m'" for m'
      by (metis fst_conv)
    show ?thesis
    proof (cases r)
      case (Ok w)
      with Pair Cons.IH [of s1] show ?thesis
        by (cases "find_nodes s1 tab") (auto simp: and_then_def split: result.splits)
    next
      case (Exception m')
      with r [of m'] show ?thesis by simp
    next
      case Crash
      with Pair show ?thesis by simp
    qed
  qed
qed

text \<open>
  Where \<open>find\<close> degrades to the empty array as the spec has it: on a wrapper of a live
  element it never throws an exception; when the evaluation fails (\<open>xmlXPathEval\<close>
  returns NULL) or its result is not a node set, \<open>find\<close> returns the empty array and
  leaves the heap alone; when the result is a node set with its node table, \<open>find\<close>
  returns an array with one wrapper per entry, in the table's order, each the wrapper the
  registry holds for that node afterwards.
\<close>

lemma Element_Find_degrades_to_empty:
  assumes el: "Unwrap s this = Some el" and n: "nodes s (xml_obj el) = Some n"
  shows "(xmlXPathEval E s (c_str (ToString E (arg args 0))) (xml_obj el) = None \<longrightarrow>
            Element_Find E s this args = (Ok (JsArray []), s)) \<and>
         (\<forall>r. xmlXPathEval E s (c_str (ToString E (arg args 0))) (xml_obj el) = Some r \<and>
               xp_type r \<noteq> XPATH_NODESET \<longrightarrow>
            Element_Find E s this args = (Ok (JsArray []), s)) \<and>
         (\<forall>r tab. xmlXPathEval E s (c_str (ToString E (arg args 0))) (xml_obj el) = Some r \<and>
               xp_type r = XPATH_NODESET \<and> nodesetval r = Some tab \<and>
               heap_fresh s \<and> (\<forall>a\<in>set tab. registrable s a) \<longrightarrow>
            (\<exists>ws s'. Element_Find E s this args = (Ok (JsArray (map JsWrapper ws)), s') \<and>
               length ws = length tab \<and>
               (\<forall>i<length tab. JsObj_Unwrap s' (tab ! i) = Some (ws ! i)))) \<and>
         (\<forall>m. fst (Element_Find E s this args) \<noteq> Exception m)"
proof -
  let ?ev = "xmlXPathEval E s (c_str (ToString E (arg args 0))) (xml_obj el)"
  have call: "Element_Find E s this args = find' E s (xml_obj el) (c_str (ToString E (arg args 0)))"
    using el by (simp add: Element_Find_def)
  have A: "find' E s (xml_obj el) (c_str (ToString E (arg args 0))) = (Ok (JsArray []), s)"
    if "?ev = None"
    using that n by (simp add: find'_def)
  have B: "find' E s (xml_obj el) (c_str (ToString E (arg args 0))) = (Ok (JsArray []), s)"
    if "?ev = Some r" "xp_type r \<noteq> XPATH_NODESET" for r
    using that n by (simp add: find'_def)
  have C: "\<exists>ws s'. find' E s (xml_obj el) (c_str (ToString E (arg args 0)))
               = (Ok (JsArray (map JsWrapper ws)), s') \<and>
             length ws = length tab \<and>
             (\<forall>i<length tab. JsObj_Unwrap s' (tab ! i) = Some (ws ! i))"
    if ev: "?ev = Some r" "xp_type r = XPATH_NODESET" "nodesetval r = Some tab"
      and fr: "heap_fresh s" and reg: "\<forall>a\<in>set tab. registrable s a" for r tab
  proof -
    from find_nodes_registers [OF fr reg]
    obtain ws s' where "find_nodes s tab = (Ok (map JsWrapper ws), s')"
      "length ws = length tab" "\<forall>i<length tab. JsObj_Unwrap s' (tab ! i) = Some (ws ! i)"
      by blast
    then show ?thesis using ev n by (auto simp: find'_def)
  qed
  have D: "fst (find' E s (xml_obj el) (c_str (ToString E (arg args 0)))) \<noteq> Exception m" for m
  proof -
    have "fst (and_then (find_nodes s tab) (\<lambda>ws s1. (Ok (JsArray ws), s1))) \<noteq> Exception m"
      for tab
      using find_nodes_no_exception [of s tab m]
      by (cases "find_nodes s tab") (auto simp: and_then_def split: result.splits)
    then show ?thesis
      using n by (simp add: find'_def split: option.splits)
  qed
  show ?thesis unfolding call using A B C D by blast
qed

lemma Element_Find_degrades_to_empty_example:
  "Element_Find engine1 heap0 (JsWrapper 12) [JsString ''//[''] = (Ok (JsArray []), heap0) \<and>
   Element_Find engine1 heap0 (JsWrapper 12) [JsString ''1+1''] = (Ok (JsArray []), heap0) \<and>
   (\<exists>ws s'. Element_Find engine1 heap0 (JsWrapper 12) [JsString ''*'']
               = (Ok (JsArray (map JsWrapper ws)), s') \<and>
      length ws = 2 \<and> JsObj_Unwrap s' 3 = Some (ws ! 0) \<and> JsObj_Unwrap s' 4 = Some (ws ! 1))"
proof -
  let ?el = "\<lparr>w_klass = Element, xml_obj = 1, w_fields = []\<rparr>"
  have el: "Unwrap heap0 (JsWrapper 12) = Some ?el"
    by (simp add: Unwrap_def heap0_def)
  have n: "nodes heap0 (xml_obj ?el) = Some root1"
    by (simp add: heap0_def)
  have a: "xmlXPathEval engine1 heap0 (c_str (ToString engine1 (arg [JsString ''//[''] 0))) (xml_obj ?el)
             = None"
    by (simp add: engine1_def engine0_def ToString_def arg_def c_str_def)
  have b: "xmlXPathEval engine1 heap0 (c_str (ToString engine1 (arg [JsString ''1+1''] 0))) (xml_obj ?el)
             = Some \<lparr>xp_type = XPATH_NUMBER, nodesetval = None\<rparr> \<and>
           xp_type \<lparr>xp_type = XPATH_NUMBER, nodesetval = None\<rparr> \<noteq> XPATH_NODESET"
    by (simp add: engine1_def engine0_def ToString_def arg_def c_str_def)
  have c: "xmlXPathEval engine1 heap0 (c_str (ToString engine1 (arg [JsString ''*''] 0))) (xml_obj ?el)
             = Some \<lparr>xp_type = XPATH_NODESET, nodesetval = Some [3, 4]\<rparr> \<and>
           xp_type \<lparr>xp_type = XPATH_NODESET, nodesetval = Some [3, 4]\<rparr> = XPATH_NODESET \<and>
           nodesetval \<lparr>xp_type = XPATH_NODESET, nodesetval = Some [3, 4]\<rparr> = Some [3, 4] \<and>
           heap_fresh heap0 \<and> (\<forall>a\<in>set [3, 4]. registrable heap0 a)"
    using heap_fresh_heap0
    by (simp add: engine1_def engine0_def ToString_def arg_def heap0_def root1_def
        registrable_def elem3_def text4_def c_str_def)
  note t = Element_Find_degrades_to_empty [OF el n]
  note t1 = t [of engine1 "[JsString ''//['']", THEN conjunct1, rule_format, OF a]
  note t2 = t [of engine1 "[JsString ''1+1'']", THEN conjunct2, THEN conjunct1, rule_format, OF b]
  note t3 = t [of engine1 "[JsString ''*'']", THEN conjunct2, THEN conjunct2, THEN conjunct1,
      rule_format, OF c]
  from t3 obtain ws s' where
    r: "Element_Find engine1 heap0 (JsWrapper 12) [JsString ''*'']
          = (Ok (JsArray (map JsWrapper ws)), s')"
    and len: "length ws = length [3::nat, 4]"
    and all: "\<forall>i<length [3::nat, 4]. JsObj_Unwrap s' ([3, 4] ! i) = Some (ws ! i)"
    by blast
  from all [rule_format, of 0] all [rule_format, of 1]
  have "JsObj_Unwrap s' 3 = Some (ws ! 0) \<and> JsObj_Unwrap s' 4 = Some (ws ! 1)" by simp
  with r len t1 t2 show ?thesis by auto
qed

text \<open>
  C6. The claim has \<open>find\<close> return a sequence for every element and every XPath
  expression, and degrade to the empty sequence when the result is unusable. The code
  tests the result for NULL and for its type, and then reads \<open>result->nodesetval->nodeNr\<close>
  without testing \<open>nodesetval\<close>. On the example heap, with an evaluator that answers
  \<open>missing/child\<close> as libxml2 answers a step from an empty node set (a node set whose
  \<open>nodesetval\<close> is NULL), \<open>find\<close> neither returns a sequence nor throws: the process
  ends on the NULL pointer.
\<close>

theorem Element_Find_null_nodesetval_crashes:
  "Element_Find engine1 heap0 (JsWrapper 12) [JsString ''missing/child''] = (Crash, heap0)"
  by (simp add: Element_Find_def Unwrap_def heap0_def find'_def engine1_def engine0_def
      ToString_def arg_def c_str_def)

subsection \<open>Element::Attr, the attribute map\<close>

lemma elem_kept_refl: "elem_kept s s e"
  by (simp add: elem_kept_def)

lemma elem_kept_trans: "elem_kept s s1 e \<Longrightarrow> elem_kept s1 s2 e \<Longrightarrow> elem_kept s s2 e"
  by (auto simp: elem_kept_def)

lemma update_absent: "k \<notin> fst ` set al \<Longrightarrow> AList.update k v al = al @ [(k, v)]"
  by (induction al) auto

lemma update_first:
  "find P ps = Some a \<Longrightarrow> distinct ps \<Longrightarrow> (\<forall>b\<in>set ps. P b \<longleftrightarrow> fst (f b) = k) \<Longrightarrow>
   AList.update k v (map f ps) = map (\<lambda>b. if b = a then (k, v) else f b) ps"
proof (induction ps)
  case Nil
  then show ?case by simp
next
  case (Cons p ps)
  show ?case
  proof (cases "P p")
    case True
    with Cons.prems have "a = p" "fst (f p) = k" "p \<notin> set ps" by auto
    then show ?thesis by (auto intro: map_cong)
  next
    case False
    with Cons.prems have "find P ps = Some a" "distinct ps" "fst (f p) \<noteq> k"
      "\<forall>b\<in>set ps. P b \<longleftrightarrow> fst (f b) = k" "a \<in> set ps" "p \<notin> set ps"
      by (auto simp: find_Some_iff in_set_conv_nth)
    with Cons.IH show ?thesis by auto
  qed
qed

lemma xmlSetProp_step:
  assumes ok: "elem_ok s e"
  shows "\<exists>a s1. xmlSetProp s e k v = (Some a, s1) \<and> elem_ok s1 e \<and> elem_kept s s1 e \<and>
           (\<exists>n1. nodes s1 e = Some n1 \<and> a \<in> set (x_properties n1)) \<and>
           attrs_of s1 e = AList.update k v (attrs_of s e)"
proof -
  from ok obtain n h wr where fr: "heap_fresh s" and n: "nodes s e = Some n"
    and ty: "x_type n = XML_ELEMENT_NODE" and h: "JsObj_Unwrap s e = Some h"
    and wr: "wrappers s h = Some wr" "xml_obj wr = e" and dist: "distinct (x_properties n)"
    and props: "\<forall>a\<in>set (x_properties n). a \<noteq> e \<and> registrable s a"
    unfolding elem_ok_def by blast
  have has: "xmlHasProp s e k = find (named s k) (x_properties n)"
    using n ty by (simp add: xmlHasProp_def)
  have key: "named s k b \<longleftrightarrow> fst (attr_pair s b) = k" if "b \<in> set (x_properties n)" for b
    using props that by (auto simp: named_def attr_pair_def registrable_def split: option.splits)
  show ?thesis
  proof (cases "find (named s k) (x_properties n)")
    case None
    let ?a = "heap_next s"
    let ?an = "\<lparr>x_private = None, x_type = XML_ATTRIBUTE_NODE, x_name = k,
                x_children = [], x_parent = Some e, x_doc = x_doc n,
                x_properties = [], x_content = v\<rparr>"
    let ?s1 = "s\<lparr>nodes := (nodes s)(?a \<mapsto> ?an, e \<mapsto> n\<lparr>x_properties := x_properties n @ [?a]\<rparr>),
                 heap_next := Suc ?a\<rparr>"
    have res: "xmlSetProp s e k v = (Some ?a, ?s1)"
      using n ty has None by (simp add: xmlSetProp_def Let_def)
    have ae: "?a \<noteq> e" using fr n by (auto simp: heap_fresh_def)
    have anew: "?a \<notin> set (x_properties n)"
      using fr props by (auto simp: heap_fresh_def registrable_def)
    have old: "attr_pair ?s1 b = attr_pair s b" if "b \<in> set (x_properties n)" for b
      using that props anew by (auto simp: attr_pair_def)
    have absent: "k \<notin> fst ` set (map (attr_pair s) (x_properties n))"
      using None key by (auto simp: find_None_iff)
    have attrs: "attrs_of ?s1 e = AList.update k v (attrs_of s e)"
      using n ae old update_absent [OF absent]
      by (simp add: attrs_of_def attr_pair_def)
    have elt: "e < heap_next s"
      using fr n by (metis heap_fresh_def not_le option.distinct(1))
    have fresh1: "heap_fresh ?s1"
      using fr elt by (auto simp: heap_fresh_def)
    have reg1: "registrable ?s1 b" if "b \<in> set (x_properties n @ [?a])" for b
      using that props anew ae by (auto simp: registrable_def split: option.splits)
    have n1: "nodes ?s1 e = Some (n\<lparr>x_properties := x_properties n @ [?a]\<rparr>)"
      by simp
    have h1: "JsObj_Unwrap ?s1 e = Some h"
      using JsObj_Unwrap_same [OF n1 n] h by simp
    have w1: "wrappers ?s1 h = Some wr"
      using wr by simp
    have p1: "\<forall>b\<in>set (x_properties n @ [?a]). b \<noteq> e \<and> registrable ?s1 b"
      using reg1 props ae by auto
    have d1: "distinct (x_properties n @ [?a])"
      using dist anew by simp
    have ok1: "elem_ok ?s1 e"
      unfolding elem_ok_def
      using fresh1 n1 ty h1 w1 wr(2) d1 p1
      by (intro conjI exI [of _ "n\<lparr>x_properties := x_properties n @ [?a]\<rparr>"]
          exI [of _ h] exI [of _ wr]) simp_all
    have kept: "elem_kept s ?s1 e"
      using n n1 h h1 by (simp add: elem_kept_def)
    show ?thesis
      using res ok1 kept attrs n1 by auto
  next
    case (Some a)
    then have mem: "a \<in> set (x_properties n)" and nm: "named s k a"
      by (auto simp: find_Some_iff)
    with props obtain an where an: "nodes s a = Some an" and ae: "a \<noteq> e"
      by (auto simp: registrable_def split: option.splits)
    let ?s1 = "s\<lparr>nodes := (nodes s)(a \<mapsto> an\<lparr>x_content := v\<rparr>)\<rparr>"
    have res: "xmlSetProp s e k v = (Some a, ?s1)"
      using n ty has Some an by (simp add: xmlSetProp_def)
    have pair: "attr_pair ?s1 b = (if b = a then (k, v) else attr_pair s b)" for b
      using an nm by (auto simp: attr_pair_def named_def)
    have "AList.update k v (map (attr_pair s) (x_properties n))
            = map (\<lambda>b. if b = a then (k, v) else attr_pair s b) (x_properties n)"
      using Some dist key by (intro update_first) auto
    then have attrs: "attrs_of ?s1 e = AList.update k v (attrs_of s e)"
      using n ae pair by (simp add: attrs_of_def)
    have fresh1: "heap_fresh ?s1"
      using fr an by (auto simp: heap_fresh_def)
    have reg1: "registrable ?s1 b" if "registrable s b" for b
      using that an by (auto simp: registrable_def split: option.splits)
    have n1: "nodes ?s1 e = Some n"
      using n ae by simp
    have h1: "JsObj_Unwrap ?s1 e = Some h"
      using JsObj_Unwrap_same [OF n1 n] h by simp
    have w1: "wrappers ?s1 h = Some wr"
      using wr by simp
    have p1: "\<forall>b\<in>set (x_properties n). b \<noteq> e \<and> registrable ?s1 b"
      using reg1 props by auto
    have ok1: "elem_ok ?s1 e"
      unfolding elem_ok_def
      using fresh1 n1 ty h1 w1 wr(2) dist p1
      by (intro conjI exI [of _ n] exI [of _ h] exI [of _ wr]) simp_all
    have kept: "elem_kept s ?s1 e"
      using n n1 h h1 by (simp add: elem_kept_def)
    show ?thesis
      using res ok1 kept attrs mem n1 by auto
  qed
qed

lemma get_or_build_attr_pair:
  assumes "get_or_build k s a = (Ok w, s')"
  shows "attr_pair s' b = attr_pair s b"
proof -
  from get_or_build_nodes [OF assms] obtain n p where
    "nodes s a = Some n" "nodes s' = (nodes s)(a \<mapsto> n\<lparr>x_private := p\<rparr>)" by blast
  then show ?thesis by (simp add: attr_pair_def)
qed

lemma get_or_build_attr_step:
  assumes ok: "elem_ok s e" and n: "nodes s e = Some n" and mem: "a \<in> set (x_properties n)"
  shows "\<exists>w s2. get_or_build K s a = (Ok w, s2) \<and> elem_ok s2 e \<and> elem_kept s s2 e \<and>
           attrs_of s2 e = attrs_of s e"
proof -
  from ok n obtain h wr where fr: "heap_fresh s"
    and ty: "x_type n = XML_ELEMENT_NODE" and h: "JsObj_Unwrap s e = Some h"
    and wr: "wrappers s h = Some wr" "xml_obj wr = e" and dist: "distinct (x_properties n)"
    and props: "\<forall>a\<in>set (x_properties n). a \<noteq> e \<and> registrable s a"
    unfolding elem_ok_def by auto
  from props mem have ae: "a \<noteq> e" and reg: "registrable s a" by auto
  from get_or_build_registrable [OF reg]
  obtain w s2 where gob: "get_or_build K s a = (Ok w, s2)" by blast
  note frame = get_or_build_frame [OF fr gob]
  from get_or_build_nodes [OF gob] ae have n2: "nodes s2 e = Some n"
    using n by auto
  have h2: "JsObj_Unwrap s2 e = Some h" using frame(3) h by blast
  have w2: "wrappers s2 h = Some wr" using get_or_build_wrappers [OF fr gob wr(1)] .
  have p2: "\<forall>b\<in>set (x_properties n). b \<noteq> e \<and> registrable s2 b"
    using props frame(4) by blast
  have ok2: "elem_ok s2 e"
    unfolding elem_ok_def
    using frame(1) n2 ty h2 w2 wr(2) dist p2
    by (intro conjI exI [of _ n] exI [of _ h] exI [of _ wr]) simp_all
  have kept: "elem_kept s s2 e"
    using n n2 h h2 get_or_build_wrappers [OF fr gob] by (simp add: elem_kept_def)
  have attrs: "attrs_of s2 e = attrs_of s e"
    using n n2 get_or_build_attr_pair [OF gob] by (simp add: attrs_of_def)
  show ?thesis using gob ok2 kept attrs by blast
qed

lemma set_attr_step:
  assumes ok: "elem_ok s e"
  shows "\<exists>s'. set_attr E s e k v = (Ok (), s') \<and> elem_ok s' e \<and> elem_kept s s' e \<and>
           attrs_of s' e = AList.update (c_str k) (c_str v) (attrs_of s e)"
proof -
  from ok obtain h wr where h: "JsObj_Unwrap s e = Some h"
    and wr: "wrappers s h = Some wr" "xml_obj wr = e"
    unfolding elem_ok_def by blast
  from xmlSetProp_step [OF ok, of "c_str k" "c_str v"]
  obtain a s1 n1 where set: "xmlSetProp s e (c_str k) (c_str v) = (Some a, s1)"
    and ok1: "elem_ok s1 e"
    and kept1: "elem_kept s s1 e" and n1: "nodes s1 e = Some n1" "a \<in> set (x_properties n1)"
    and attrs1: "attrs_of s1 e = AList.update (c_str k) (c_str v) (attrs_of s e)"
    by blast
  from get_or_build_attr_step [OF ok1 n1, of Attribute]
  obtain w s2 where gob: "get_or_build Attribute s1 a = (Ok w, s2)" and ok2: "elem_ok s2 e"
    and kept2: "elem_kept s1 s2 e" and attrs2: "attrs_of s2 e = attrs_of s1 e"
    by blast
  have "Attribute_New E s (JsObject []) [JsWrapper h, JsString (c_str k), JsString (c_str v)]
          = (Ok (JsWrapper w), s2)"
    using wr set gob by (simp add: Attribute_New_def arg_def Unwrap_def ToString_def)
  then have "set_attr E s e k v = (Ok (), s2)"
    using h by (simp add: set_attr_def)
  with ok2 attrs1 attrs2 elem_kept_trans [OF kept1 kept2] show ?thesis by simp
qed

lemma set_attr_each_spec:
  assumes "elem_ok s e"
  shows "\<exists>s'. set_attr_each E s e attrs ks = (Ok (), s') \<and> elem_ok s' e \<and> elem_kept s s' e \<and>
           attrs_of s' e
             = fold (\<lambda>k. AList.update (c_str k) (c_str (ToString E (Get attrs k)))) ks
                 (attrs_of s e)"
  using assms
proof (induction ks arbitrary: s)
  case Nil
  then show ?case by (simp add: elem_kept_refl)
next
  case (Cons k ks)
  from set_attr_step [OF Cons.prems, of E "c_str k" "c_str (ToString E (Get attrs k))"]
  obtain s1 where
    step: "set_attr E s e (c_str k) (c_str (ToString E (Get attrs k))) = (Ok (), s1)"
    and ok1: "elem_ok s1 e" and kept1: "elem_kept s s1 e"
    and attrs1: "attrs_of s1 e
                   = AList.update (c_str k) (c_str (ToString E (Get attrs k))) (attrs_of s e)"
    by auto
  from Cons.IH [OF ok1]
  obtain s' where rest: "set_attr_each E s1 e attrs ks = (Ok (), s')" and ok': "elem_ok s' e"
    and kept': "elem_kept s1 s' e"
    and attrs': "attrs_of s' e
                   = fold (\<lambda>k. AList.update (c_str k) (c_str (ToString E (Get attrs k)))) ks
                       (attrs_of s1 e)"
    by blast
  show ?case
    using step rest ok' attrs1 attrs' elem_kept_trans [OF kept1 kept']
    by simp
qed

lemma map_of_fold_update:
  "map_of (fold (\<lambda>k. AList.update k (g k)) ks al) k
     = (if k \<in> set ks then Some (g k) else map_of al k)"
  by (induction ks arbitrary: al) (auto simp: AList.update_conv')

lemma keys_fold_update:
  "distinct ks \<Longrightarrow>
   map fst (fold (\<lambda>k. AList.update k (g k)) ks al)
     = map fst al @ filter (\<lambda>k. k \<notin> set (map fst al)) ks"
proof (induction ks arbitrary: al)
  case Nil
  then show ?case by simp
next
  case (Cons k ks)
  then have IH: "map fst (fold (\<lambda>k. AList.update k (g k)) ks (AList.update k (g k) al))
     = map fst (AList.update k (g k) al)
       @ filter (\<lambda>k'. k' \<notin> set (map fst (AList.update k (g k) al))) ks"
    by simp
  have "filter (\<lambda>k'. k' \<notin> set (map fst (AList.update k (g k) al))) ks
          = filter (\<lambda>k'. k' \<notin> set (map fst al)) ks"
    using Cons.prems by (intro filter_cong) (auto simp: AList.update_keys)
  with IH show ?case by (simp add: AList.update_keys)
qed

lemma set_GetPropertyNames: "set (GetPropertyNames ps) = fst ` set ps"
  by (induction ps) auto

lemma distinct_GetPropertyNames: "distinct (GetPropertyNames ps)"
  by (induction ps) auto

text \<open>A key assigned again holds the value assigned last.\<close>

lemma Get_last_wins: "k \<notin> fst ` set qs \<Longrightarrow> Get (ps @ (k, v) # qs) k = v"
proof -
  assume "k \<notin> fst ` set qs"
  then have "map_of (rev qs) k = None"
    by (simp add: map_of_eq_None_iff)
  then show ?thesis
    by (simp add: Get_def map_add_def)
qed

lemma find_attr_pair:
  "map_of (map (attr_pair s) ps) k = Some v \<Longrightarrow>
   \<exists>a. find (\<lambda>a. fst (attr_pair s a) = k) ps = Some a \<and> attr_pair s a = (k, v)"
  by (induction ps) (auto split: if_splits)

lemma get_attr_present:
  assumes ok: "elem_ok s e" and v: "map_of (attrs_of s e) (c_str k) = Some v"
  shows "\<exists>a w s'. get_attr s e k = (Ok (JsWrapper w), s') \<and> JsObj_Unwrap s' a = Some w \<and>
           attr_pair s' a = (c_str k, v)"
proof -
  let ?k = "c_str k"
  from ok obtain n where n: "nodes s e = Some n" and ty: "x_type n = XML_ELEMENT_NODE"
    and props: "\<forall>a\<in>set (x_properties n). a \<noteq> e \<and> registrable s a"
    unfolding elem_ok_def by blast
  have "named s ?k b \<longleftrightarrow> fst (attr_pair s b) = ?k" if "b \<in> set (x_properties n)" for b
    using props that by (auto simp: named_def attr_pair_def registrable_def split: option.splits)
  then have "find (named s ?k) (x_properties n)
               = find (\<lambda>a. fst (attr_pair s a) = ?k) (x_properties n)"
    by (intro find_cong) auto
  moreover from v n obtain a where "find (\<lambda>a. fst (attr_pair s a) = ?k) (x_properties n) = Some a"
    and pair: "attr_pair s a = (?k, v)"
    using find_attr_pair [of s "x_properties n" ?k v] by (auto simp: attrs_of_def)
  ultimately have has: "xmlHasProp s e ?k = Some a" and mem: "a \<in> set (x_properties n)"
    using n ty by (auto simp: xmlHasProp_def find_Some_iff)
  from props mem have "registrable s a" by blast
  from get_or_build_registrable [OF this]
  obtain w s' where gob: "get_or_build Attribute s a = (Ok w, s')"
    and unw: "JsObj_Unwrap s' a = Some w"
    by blast
  have "get_attr s e k = (Ok (JsWrapper w), s')"
    using n has gob by (simp add: get_attr_def)
  with unw pair get_or_build_attr_pair [OF gob, of a] show ?thesis by auto
qed

text \<open>
  The map form of \<open>attr\<close>. On a wrapper of a well-formed element, \<open>attr\<close> called with a
  single argument that is not a string sets one attribute per key of that object, in the
  order in which the keys were first assigned, each to the value the object holds for the
  key (the value assigned last), names and values read as C strings: each \<open>set_attr\<close>
  overwrites, in place, the text of the first attribute of that name, or appends a new
  attribute when there is none. When no key has a NUL character, every key of the map
  afterwards names an attribute whose text is that value, and \<open>attr(key)\<close> returns a
  wrapper of such an attribute; the attributes of other names are as they were, and the new
  names follow the old ones in the order of the map.
\<close>

lemma Element_Attr_map_sets_each:
  assumes el: "Unwrap s this = Some el" and ok: "elem_ok s (xml_obj el)"
    and v: "\<not> IsString v" "ToObject E v = Some ps"
  shows "\<exists>s'. Element_Attr E s this [v] = (Ok this, s') \<and>
           attrs_of s' (xml_obj el)
             = fold (\<lambda>k. AList.update (c_str k) (c_str (ToString E (Get ps k))))
                 (GetPropertyNames ps) (attrs_of s (xml_obj el)) \<and>
           ((\<forall>k\<in>fst ` set ps. c_str k = k) \<longrightarrow>
              (\<forall>k\<in>fst ` set ps.
                 map_of (attrs_of s' (xml_obj el)) k = Some (c_str (ToString E (Get ps k))) \<and>
                 (\<exists>a w s''. Element_Attr E s' this [JsString k] = (Ok (JsWrapper w), s'') \<and>
                    JsObj_Unwrap s'' a = Some w \<and>
                    attr_pair s'' a = (k, c_str (ToString E (Get ps k))))) \<and>
              (\<forall>k. k \<notin> fst ` set ps \<longrightarrow>
                 map_of (attrs_of s' (xml_obj el)) k = map_of (attrs_of s (xml_obj el)) k) \<and>
              map fst (attrs_of s' (xml_obj el))
                = map fst (attrs_of s (xml_obj el))
                  @ filter (\<lambda>k. k \<notin> set (map fst (attrs_of s (xml_obj el))))
                      (GetPropertyNames ps))"
proof -
  let ?e = "xml_obj el"
  let ?g = "\<lambda>k. c_str (ToString E (Get ps k))"
  from set_attr_each_spec [OF ok, of E ps "GetPropertyNames ps"]
  obtain s' where loop: "set_attr_each E s ?e ps (GetPropertyNames ps) = (Ok (), s')"
    and ok': "elem_ok s' ?e" and kept: "elem_kept s s' ?e"
    and attrs: "attrs_of s' ?e
      = fold (\<lambda>k. AList.update (c_str k) (?g k)) (GetPropertyNames ps) (attrs_of s ?e)"
    by blast
  have call: "Element_Attr E s this [v] = (Ok this, s')"
    using el v loop by (simp add: Element_Attr_def arg_def)
  have el': "Unwrap s' this = Some el"
    using el kept by (cases this) (auto simp: Unwrap_def elem_kept_def)
  have rest: "(\<forall>k\<in>fst ` set ps.
                 map_of (attrs_of s' ?e) k = Some (?g k) \<and>
                 (\<exists>a w s''. Element_Attr E s' this [JsString k] = (Ok (JsWrapper w), s'') \<and>
                    JsObj_Unwrap s'' a = Some w \<and> attr_pair s'' a = (k, ?g k))) \<and>
              (\<forall>k. k \<notin> fst ` set ps \<longrightarrow> map_of (attrs_of s' ?e) k = map_of (attrs_of s ?e) k) \<and>
              map fst (attrs_of s' ?e)
                = map fst (attrs_of s ?e)
                  @ filter (\<lambda>k. k \<notin> set (map fst (attrs_of s ?e))) (GetPropertyNames ps)"
    if whole: "\<forall>k\<in>fst ` set ps. c_str k = k"
  proof -
    have "fold (\<lambda>k. AList.update (c_str k) (?g k)) (GetPropertyNames ps) (attrs_of s ?e)
            = fold (\<lambda>k. AList.update k (?g k)) (GetPropertyNames ps) (attrs_of s ?e)"
      using whole by (intro fold_cong) (auto simp: set_GetPropertyNames)
    with attrs have plain: "attrs_of s' ?e
        = fold (\<lambda>k. AList.update k (?g k)) (GetPropertyNames ps) (attrs_of s ?e)"
      by simp
    have val: "map_of (attrs_of s' ?e) k = Some (?g k)" if "k \<in> fst ` set ps" for k
      using that plain by (simp add: map_of_fold_update set_GetPropertyNames)
    have lookup: "\<exists>a w s''. Element_Attr E s' this [JsString k] = (Ok (JsWrapper w), s'') \<and>
                    JsObj_Unwrap s'' a = Some w \<and> attr_pair s'' a = (k, ?g k)"
      if k: "k \<in> fst ` set ps" for k
    proof -
      from whole k have ck: "c_str k = k" by blast
      with val [OF k] have "map_of (attrs_of s' ?e) (c_str k) = Some (?g k)" by simp
      from get_attr_present [OF ok' this] el' ck show ?thesis
        by (simp add: Element_Attr_def arg_def ToString_def get_attr_def)
    qed
    have other: "map_of (attrs_of s' ?e) k = map_of (attrs_of s ?e) k" if "k \<notin> fst ` set ps" for k
      using that plain by (simp add: map_of_fold_update set_GetPropertyNames)
    have keys: "map fst (attrs_of s' ?e)
                  = map fst (attrs_of s ?e)
                    @ filter (\<lambda>k. k \<notin> set (map fst (attrs_of s ?e))) (GetPropertyNames ps)"
      using plain keys_fold_update [OF distinct_GetPropertyNames] by simp
    show ?thesis using val lookup other keys by blast
  qed
  show ?thesis using call attrs rest by blast
qed

lemma elem_ok_heap0: "elem_ok heap0 1"
  unfolding elem_ok_def
proof (intro conjI exI [of _ root1] exI [of _ 12]
    exI [of _ "\<lparr>w_klass = Element, xml_obj = 1, w_fields = []\<rparr>"])
  show "heap_fresh heap0" by (rule heap_fresh_heap0)
qed (simp_all add: heap0_def root1_def JsObj_Unwrap_def registrable_def attr2_def)

text \<open>On the example heap, where the root has \<open>id = a1\<close>: \<open>attr({id: 'x', lang: 'en',
  id: 'b2'})\<close> leaves \<open>id = b2\<close>, in its old place, and appends \<open>lang = en\<close>.\<close>

lemma Element_Attr_map_example:
  "(\<exists>s'. Element_Attr engine0 heap0 (JsWrapper 12)
            [JsObject [(''id'', JsString ''x''), (''lang'', JsString ''en''),
                       (''id'', JsString ''b2'')]]
            = (Ok (JsWrapper 12), s') \<and>
         attrs_of s' 1 = [(''id'', ''b2''), (''lang'', ''en'')]) \<and>
   attrs_of heap0 1 = [(''id'', ''a1'')]"
proof -
  let ?el = "\<lparr>w_klass = Element, xml_obj = 1, w_fields = []\<rparr>"
  let ?ps = "[(''id'', JsString ''x''), (''lang'', JsString ''en''), (''id'', JsString ''b2'')]"
  have el: "Unwrap heap0 (JsWrapper 12) = Some ?el"
    by (simp add: Unwrap_def heap0_def)
  have ok: "elem_ok heap0 (xml_obj ?el)" using elem_ok_heap0 by simp
  have v: "\<not> IsString (JsObject ?ps)" "ToObject engine0 (JsObject ?ps) = Some ?ps"
    by (simp_all add: ToObject_def)
  have before: "attrs_of heap0 1 = [(''id'', ''a1'')]"
    by (simp add: attrs_of_def attr_pair_def heap0_def root1_def attr2_def)
  from Element_Attr_map_sets_each [OF el ok v]
  obtain s' where call: "Element_Attr engine0 heap0 (JsWrapper 12) [JsObject ?ps]
                           = (Ok (JsWrapper 12), s')"
    and attrs: "attrs_of s' (xml_obj ?el)
       = fold (\<lambda>k. AList.update (c_str k) (c_str (ToString engine0 (Get ?ps k))))
           (GetPropertyNames ?ps) (attrs_of heap0 (xml_obj ?el))"
    by blast
  from attrs before have "attrs_of s' 1 = [(''id'', ''b2''), (''lang'', ''en'')]"
    by (simp add: Get_def ToString_def c_str_def)
  with call before show ?thesis by blast
qed

text \<open>
  C4. The claim has \<open>attr\<close> called with two arguments, a name and a value, create the
  attribute or overwrite its value, and the comment on the default branch of the switch
  in \<open>Element::Attr\<close> ("1 or 2 arguments only") allows two arguments as well. The
  switch has no case for two: on the example heap, where the root has the attribute
  \<open>id\<close> with the text \<open>a1\<close>, both \<open>attr('id', 'b2')\<close> and \<open>attr('lang', 'en')\<close>
  throw "Bad argument(s): #attr(name) or #attr({name: value})", and the heap, with
  \<open>id = a1\<close> and no \<open>lang\<close>, is as it was.
\<close>

theorem Element_Attr_two_arguments_throws:
  "Element_Attr engine0 heap0 (JsWrapper 12) [JsString ''id'', JsString ''b2'']
     = (Exception ''Bad argument(s): #attr(name) or #attr({name: value})'', heap0) \<and>
   map_of (attrs_of heap0 1) ''id'' = Some ''a1'' \<and>
   Element_Attr engine0 heap0 (JsWrapper 12) [JsString ''lang'', JsString ''en'']
     = (Exception ''Bad argument(s): #attr(name) or #attr({name: value})'', heap0) \<and>
   map_of (attrs_of heap0 1) ''lang'' = None"
  by (simp add: Element_Attr_def Unwrap_def heap0_def attrs_of_def attr_pair_def root1_def
      attr2_def)

subsection \<open>Element::New and Element::Name\<close>

lemma Element_Name_get:
  assumes "names_element s w nm"
  shows "Element_Name E s (JsWrapper w) [] = (Ok (JsString (c_str nm)), s)"
  using assms by (auto simp: names_element_def Element_Name_def Unwrap_def get_name_def)

lemma Element_Name_set:
  assumes "names_element s w nm"
  shows "\<exists>wr n. wrappers s w = Some wr \<and> nodes s (xml_obj wr) = Some n \<and>
           Element_Name E s (JsWrapper w) [y]
             = (Ok (JsWrapper w),
                s\<lparr>nodes := (nodes s)(xml_obj wr \<mapsto> n\<lparr>x_name := c_str (ToString E y)\<rparr>)\<rparr>) \<and>
           names_element (s\<lparr>nodes := (nodes s)(xml_obj wr \<mapsto> n\<lparr>x_name := c_str (ToString E y)\<rparr>)\<rparr>)
             w (c_str (ToString E y))"
  using assms
  by (auto simp: names_element_def Element_Name_def Unwrap_def set_name_def xmlNodeSetName_def
      arg_def)

lemma xmlNewDocNode_spec:
  assumes "heap_fresh s"
  shows "\<exists>s1 n. xmlNewDocNode s doc nm c = (heap_next s, s1) \<and> heap_fresh s1 \<and>
           nodes s1 (heap_next s) = Some n \<and> x_type n = XML_ELEMENT_NODE \<and> x_name n = nm \<and>
           x_private n = None \<and> x_properties n = []"
  using assms
  by (cases c) (auto simp: xmlNewDocNode_def Let_def heap_fresh_def)

lemma get_or_build_new_element:
  assumes fr: "heap_fresh s" and n: "nodes s a = Some n" and ty: "x_type n = XML_ELEMENT_NODE"
    and priv: "x_private n = None" and props: "x_properties n = []"
  shows "\<exists>obj s2. get_or_build Element s a = (Ok obj, s2) \<and> elem_ok s2 a \<and>
           (\<exists>p. nodes s2 a = Some (n\<lparr>x_private := p\<rparr>)) \<and> JsObj_Unwrap s2 a = Some obj \<and>
           wrappers s2 obj = Some \<lparr>w_klass = Element, xml_obj = a, w_fields = []\<rparr>"
proof -
  let ?w = "heap_next s"
  let ?s2 = "s\<lparr>nodes := (nodes s)(a \<mapsto> n\<lparr>x_private := Some (Suc ?w)\<rparr>),
               jsobjs := (jsobjs s)(Suc ?w \<mapsto> ?w),
               wrappers := (wrappers s)(?w \<mapsto> \<lparr>w_klass = Element, xml_obj = a, w_fields = []\<rparr>),
               heap_next := Suc (Suc ?w)\<rparr>"
  have gob: "get_or_build Element s a = (Ok ?w, ?s2)"
    using n priv by (simp add: get_or_build_def Let_def)
  note frame = get_or_build_frame [OF fr gob]
  have n2: "nodes ?s2 a = Some (n\<lparr>x_private := Some (Suc ?w)\<rparr>)" by simp
  have w2: "wrappers ?s2 ?w = Some \<lparr>w_klass = Element, xml_obj = a, w_fields = []\<rparr>" by simp
  have "elem_ok ?s2 a"
    unfolding elem_ok_def
    using frame(1,2) n2 w2 ty props
    by (intro conjI exI [of _ "n\<lparr>x_private := Some (Suc ?w)\<rparr>"] exI [of _ ?w]
        exI [of _ "\<lparr>w_klass = Element, xml_obj = a, w_fields = []\<rparr>"]) simp_all
  with gob frame(2) n2 w2 show ?thesis by blast
qed

text \<open>
  C8 (as amended). An element created through \<open>Element::New\<close> with a document wrapper
  and a name \<open>x\<close> (and any attribute map, initial content and configure callback, as long
  as the callback does not itself rename or free nodes) answers \<open>name()\<close> with \<open>x\<close> read
  as a C string: \<open>x\<close> up to its first NUL character, all of \<open>x\<close> when it has none. After
  \<open>name(y)\<close> on it, the heap differs from the one before only in the \<open>name\<close> field of
  the element's native node, which is \<open>y\<close> read as a C string; \<open>name()\<close> then returns
  that and, as it leaves the heap unchanged, so does every later \<open>name()\<close>.
\<close>

theorem Element_New_then_Name:
  assumes fr: "heap_fresh s"
    and doc: "Unwrap s (arg args 0) = Some d"
    and attrs: "IsObject (arg args 2) \<longrightarrow> ToObject E (arg args 2) \<noteq> None"
    and cb: "\<forall>f. arg args 4 = JsFunction f \<longrightarrow> (\<forall>t a. keeps_names (v8_Call E f t a))"
  shows "\<exists>w s1. Element_New E s this args = (Ok (JsWrapper w), s1) \<and>
           Element_Name E s1 (JsWrapper w) []
             = (Ok (JsString (c_str (ToString E (arg args 1)))), s1) \<and>
           (\<forall>y. \<exists>wr n s2. wrappers s1 w = Some wr \<and> nodes s1 (xml_obj wr) = Some n \<and>
                  s2 = s1\<lparr>nodes := (nodes s1)(xml_obj wr \<mapsto> n\<lparr>x_name := c_str (ToString E y)\<rparr>)\<rparr> \<and>
                  Element_Name E s1 (JsWrapper w) [y] = (Ok (JsWrapper w), s2) \<and>
                  Element_Name E s2 (JsWrapper w) [] = (Ok (JsString (c_str (ToString E y))), s2))"
proof -
  let ?nm = "c_str (ToString E (arg args 1))"
  let ?content = "if IsString (arg args 3) then Some (c_str (ToString E (arg args 3))) else None"
  let ?a = "heap_next s"
  have args: "\<not> (length args = 0 \<or> arg args 0 = JsNull)"
    using doc by (auto simp: Unwrap_def arg_def)
  from xmlNewDocNode_spec [OF fr, of "xml_obj d" ?nm ?content]
  obtain s1 n where new: "xmlNewDocNode s (xml_obj d) ?nm ?content = (?a, s1)"
    and fr1: "heap_fresh s1" and n: "nodes s1 ?a = Some n" "x_type n = XML_ELEMENT_NODE"
    "x_name n = ?nm" "x_private n = None" "x_properties n = []"
    by blast
  from get_or_build_new_element [OF fr1 n(1,2,4,5)]
  obtain obj s2 p where gob: "get_or_build Element s1 ?a = (Ok obj, s2)" and ok2: "elem_ok s2 ?a"
    and n2: "nodes s2 ?a = Some (n\<lparr>x_private := p\<rparr>)" and h2: "JsObj_Unwrap s2 ?a = Some obj"
    and w2: "wrappers s2 obj = Some \<lparr>w_klass = Element, xml_obj = ?a, w_fields = []\<rparr>"
    by blast
  let ?loop = "if IsObject (arg args 2) then
                 (case ToObject E (arg args 2) of
                    None \<Rightarrow> (Crash, s2)
                  | Some attributes \<Rightarrow>
                      set_attr_each E s2 ?a attributes (GetPropertyNames attributes))
               else (Ok (), s2)"
  have "\<exists>s3. ?loop = (Ok (), s3) \<and> elem_ok s3 ?a \<and> elem_kept s2 s3 ?a"
  proof (cases "IsObject (arg args 2)")
    case True
    with attrs obtain ps where ps: "ToObject E (arg args 2) = Some ps" by auto
    from set_attr_each_spec [OF ok2, of E ps "GetPropertyNames ps"] True ps
    show ?thesis by auto
  next
    case False
    then show ?thesis using ok2 by (simp add: elem_kept_refl)
  qed
  then obtain s3 where loop: "?loop = (Ok (), s3)" and ok3: "elem_ok s3 ?a"
    and kept: "elem_kept s2 s3 ?a" by blast
  from ok3 obtain n3 where n3: "nodes s3 ?a = Some n3" "x_type n3 = XML_ELEMENT_NODE"
    unfolding elem_ok_def by blast
  from kept n2 n3 n(3) have nm3: "x_name n3 = ?nm"
    by (simp add: elem_kept_def)
  from kept h2 w2
  have w3: "wrappers s3 obj = Some \<lparr>w_klass = Element, xml_obj = ?a, w_fields = []\<rparr>"
    by (simp add: elem_kept_def)
  let ?s4 = "Set_field obj ''document'' (arg args 0) s3"
  let ?s5 = "case arg args 4 of
               JsFunction callback \<Rightarrow> v8_Call E callback (JsWrapper obj) [JsWrapper obj] ?s4
             | _ \<Rightarrow> ?s4"
  have ne4: "names_element ?s4 obj ?nm"
    using w3 n3 nm3 by (simp add: names_element_def Set_field_def)
  have ne5: "names_element ?s5 obj ?nm"
  proof (cases "\<exists>f. arg args 4 = JsFunction f")
    case True
    then obtain f where f: "arg args 4 = JsFunction f" by blast
    with cb have "keeps_names (v8_Call E f (JsWrapper obj) [JsWrapper obj])" by blast
    then have keep: "wrappers s0 w = Some wr \<and> nodes s0 (xml_obj wr) = Some n0 \<longrightarrow>
        (\<exists>wr' n'. wrappers (v8_Call E f (JsWrapper obj) [JsWrapper obj] s0) w = Some wr' \<and>
           xml_obj wr' = xml_obj wr \<and>
           nodes (v8_Call E f (JsWrapper obj) [JsWrapper obj] s0) (xml_obj wr) = Some n' \<and>
           x_name n' = x_name n0 \<and> x_type n' = x_type n0)" for s0 w wr n0
      unfolding keeps_names_def by blast
    from ne4 obtain wr4 n4 where "wrappers ?s4 obj = Some wr4" "nodes ?s4 (xml_obj wr4) = Some n4"
      "x_name n4 = ?nm" "x_type n4 = XML_ELEMENT_NODE"
      unfolding names_element_def by blast
    with keep [of ?s4 obj wr4 n4]
    have "names_element (v8_Call E f (JsWrapper obj) [JsWrapper obj] ?s4) obj ?nm"
      unfolding names_element_def by auto
    with f show ?thesis by simp
  next
    case False
    then have "?s5 = ?s4" by (cases "arg args 4") auto
    with ne4 show ?thesis by simp
  qed
  have "and_then ?loop
          (\<lambda>_ s3. let s4 = Set_field obj ''document'' (arg args 0) s3
                   in case arg args 4 of
                        JsFunction callback \<Rightarrow>
                          (Ok (JsWrapper obj),
                           v8_Call E callback (JsWrapper obj) [JsWrapper obj] s4)
                      | _ \<Rightarrow> (Ok (JsWrapper obj), s4))
        = (Ok (JsWrapper obj), ?s5)"
    unfolding loop by (cases "arg args 4") (simp_all add: Let_def)
  then have res: "Element_New E s this args = (Ok (JsWrapper obj), ?s5)"
    using args doc new gob w2
    by (simp add: Element_New_def Unwrap_def Let_def cong: option.case_cong if_cong)
  have rename: "\<exists>wr n s2. wrappers ?s5 obj = Some wr \<and> nodes ?s5 (xml_obj wr) = Some n \<and>
          s2 = ?s5\<lparr>nodes := (nodes ?s5)(xml_obj wr \<mapsto> n\<lparr>x_name := c_str (ToString E y)\<rparr>)\<rparr> \<and>
          Element_Name E ?s5 (JsWrapper obj) [y] = (Ok (JsWrapper obj), s2) \<and>
          Element_Name E s2 (JsWrapper obj) [] = (Ok (JsString (c_str (ToString E y))), s2)" for y
  proof -
    from Element_Name_set [OF ne5, of E y]
    obtain wr n5 where a: "wrappers ?s5 obj = Some wr" "nodes ?s5 (xml_obj wr) = Some n5"
      "Element_Name E ?s5 (JsWrapper obj) [y]
         = (Ok (JsWrapper obj),
            ?s5\<lparr>nodes := (nodes ?s5)(xml_obj wr \<mapsto> n5\<lparr>x_name := c_str (ToString E y)\<rparr>)\<rparr>)"
      and b: "names_element
                (?s5\<lparr>nodes := (nodes ?s5)(xml_obj wr \<mapsto> n5\<lparr>x_name := c_str (ToString E y)\<rparr>)\<rparr>)
                obj (c_str (ToString E y))"
      by blast
    from a Element_Name_get [OF b, of E] show ?thesis by simp
  qed
  have get: "Element_Name E ?s5 (JsWrapper obj) [] = (Ok (JsString ?nm), ?s5)"
    using Element_Name_get [OF ne5, of E] by simp
  show ?thesis
    by (intro exI [of _ obj] exI [of _ ?s5] conjI allI res get rename)
qed

text \<open>The claim as it was stated has \<open>name()\<close> return the name the element was created
  with. On the example heap an element created with the name \<open>x\<close>, NUL, \<open>y\<close> answers
  \<open>name()\<close> with \<open>x\<close>.\<close>

theorem Element_New_name_nul_counterexample:
  "fst (Element_New engine0 heap0 JsUndefined
          [JsWrapper 10, JsString [CHR ''x'', CHR 0x00, CHR ''y'']]) = Ok (JsWrapper 21) \<and>
   fst (Element_Name engine0
          (snd (Element_New engine0 heap0 JsUndefined
                  [JsWrapper 10, JsString [CHR ''x'', CHR 0x00, CHR ''y'']]))
          (JsWrapper 21) []) = Ok (JsString ''x'') \<and>
   JsString ''x'' \<noteq> JsString [CHR ''x'', CHR 0x00, CHR ''y'']"
  by (simp add: Element_New_def Element_Name_def get_name_def Unwrap_def heap0_def arg_def
      ToString_def c_str_def xmlNewDocNode_def get_or_build_def Set_field_def Let_def)

theorem Element_New_then_Name_witness:
  "\<exists>w s1. Element_New engine0 heap0 JsUndefined
             [JsWrapper 10, JsString ''name1'', JsObject [(''a'', JsString ''1'')],
              JsString ''content'', JsFunction 0]
             = (Ok (JsWrapper w), s1) \<and>
          Element_Name engine0 s1 (JsWrapper w) [] = (Ok (JsString ''name1''), s1) \<and>
          (\<exists>s2. Element_Name engine0 s1 (JsWrapper w) [JsString ''newname'']
                  = (Ok (JsWrapper w), s2) \<and>
                Element_Name engine0 s2 (JsWrapper w) [] = (Ok (JsString ''newname''), s2))"
proof -
  let ?args = "[JsWrapper 10, JsString ''name1'', JsObject [(''a'', JsString ''1'')],
                JsString ''content'', JsFunction 0]"
  have doc: "Unwrap heap0 (arg ?args 0) = Some \<lparr>w_klass = Document, xml_obj = 0, w_fields = []\<rparr>"
    by (simp add: Unwrap_def arg_def heap0_def)
  have attrs: "IsObject (arg ?args 2) \<longrightarrow> ToObject engine0 (arg ?args 2) \<noteq> None"
    by (simp add: arg_def ToObject_def)
  have cb: "\<forall>f. arg ?args 4 = JsFunction f \<longrightarrow> (\<forall>t a. keeps_names (v8_Call engine0 f t a))"
    by (simp add: engine0_def keeps_names_def)
  from Element_New_then_Name [OF heap_fresh_heap0 doc attrs cb, of JsUndefined]
  obtain w s1 where new: "Element_New engine0 heap0 JsUndefined ?args = (Ok (JsWrapper w), s1)"
    and get: "Element_Name engine0 s1 (JsWrapper w) []
                = (Ok (JsString (c_str (ToString engine0 (arg ?args 1)))), s1)"
    and set: "\<forall>y. \<exists>wr n s2. wrappers s1 w = Some wr \<and> nodes s1 (xml_obj wr) = Some n \<and>
                  s2 = s1\<lparr>nodes := (nodes s1)(xml_obj wr \<mapsto> n\<lparr>x_name := c_str (ToString engine0 y)\<rparr>)\<rparr> \<and>
                  Element_Name engine0 s1 (JsWrapper w) [y] = (Ok (JsWrapper w), s2) \<and>
                  Element_Name engine0 s2 (JsWrapper w) []
                    = (Ok (JsString (c_str (ToString engine0 y))), s2)"
    by blast
  from set [rule_format, of "JsString ''newname''"]
  obtain s2 where "Element_Name engine0 s1 (JsWrapper w) [JsString ''newname'']
                     = (Ok (JsWrapper w), s2)"
    "Element_Name engine0 s2 (JsWrapper w) []
       = (Ok (JsString (c_str (ToString engine0 (JsString ''newname'')))), s2)"
    by blast
  with new get show ?thesis
    by (auto simp: ToString_def arg_def c_str_def)
qed

end
